theory Spec2Isabelle
  imports Main "HOL-Library.Sublist"
begin

section \<open>JavaScript values\<close>

text \<open>
  Requests, options and volatile data are plain JSON-like JavaScript values. Numbers are
  modelled as integers. An object is the list of its own properties in insertion order.
\<close>

datatype jsval =
    JUndefined
  | JNull
  | JBool bool
  | JNum int
  | JStr string
  | JArr "jsval list"
  | JObj "(string \<times> jsval) list"

type_synonym obj = "(string \<times> jsval) list"

text \<open>JavaScript truthiness (\<^verbatim>\<open>!x\<close> is \<open>\<not> truthy x\<close>).\<close>

fun truthy :: "jsval \<Rightarrow> bool" where
  "truthy JUndefined = False"
| "truthy JNull = False"
| "truthy (JBool b) = b"
| "truthy (JNum n) = (n \<noteq> 0)"
| "truthy (JStr s) = (s \<noteq> [])"
| "truthy (JArr xs) = True"
| "truthy (JObj kvs) = True"

text \<open>\<^verbatim>\<open>typeof x === "object"\<close> (true of null, arrays and objects) and \<^verbatim>\<open>Array.isArray\<close>.\<close>

fun typeof_object :: "jsval \<Rightarrow> bool" where
  "typeof_object JNull = True"
| "typeof_object (JArr xs) = True"
| "typeof_object (JObj kvs) = True"
| "typeof_object v = False"

fun isArray :: "jsval \<Rightarrow> bool" where
  "isArray (JArr xs) = True"
| "isArray v = False"

text \<open>Property read \<^verbatim>\<open>o[k]\<close> (undefined when absent) and property write \<^verbatim>\<open>o[k] = v\<close>.\<close>

definition get_prop :: "obj \<Rightarrow> string \<Rightarrow> jsval" where
  "get_prop ob k = (case map_of ob k of None \<Rightarrow> JUndefined | Some v \<Rightarrow> v)"

fun set_prop :: "obj \<Rightarrow> string \<Rightarrow> jsval \<Rightarrow> obj" where
  "set_prop [] k v = [(k, v)]"
| "set_prop ((k', v') # ps) k v =
     (if k' = k then (k, v) # ps else (k', v') # set_prop ps k v)"

definition del_prop :: "obj \<Rightarrow> string \<Rightarrow> obj" where
  "del_prop ob k = filter (\<lambda>kv. fst kv \<noteq> k) ob"

text \<open>\<^verbatim>\<open>Object.keys(o)\<close>.\<close>

definition keys :: "obj \<Rightarrow> string list" where
  "keys ob = map fst ob"

text \<open>
  The names of the properties of \<^verbatim>\<open>Object.prototype\<close> (ECMAScript, with the accessors of
  its annex B). A plain object without an own property of such a name reads it from there,
  as a function or, for \<^verbatim>\<open>__proto__\<close>, as \<^verbatim>\<open>Object.prototype\<close> itself: never as
  undefined.
\<close>

definition object_prototype_keys :: "string list" where
  "object_prototype_keys =
     [''constructor'', ''__defineGetter__'', ''__defineSetter__'', ''hasOwnProperty'',
      ''__lookupGetter__'', ''__lookupSetter__'', ''isPrototypeOf'', ''propertyIsEnumerable'',
      ''toString'', ''valueOf'', ''__proto__'', ''toLocaleString'']"

text \<open>
  \<^verbatim>\<open>o[k] === undefined\<close> for a plain object \<^verbatim>\<open>o\<close>, one whose prototype is
  \<^verbatim>\<open>Object.prototype\<close>: an own property decides, and without one the read goes through to
  the prototype.
\<close>

definition reads_undefined :: "obj \<Rightarrow> string \<Rightarrow> bool" where
  "reads_undefined ob k =
     (if k \<in> set (keys ob) then get_prop ob k = JUndefined
      else k \<notin> set object_prototype_keys)"

text \<open>
  \<^verbatim>\<open>JSON.parse(JSON.stringify(x))\<close>, the deep copy of \<^verbatim>\<open>query\<close>: properties whose value is
  undefined are dropped, an undefined array element becomes null. Every object of the
  result is a plain object, and \<^verbatim>\<open>__proto__\<close> is an own property like any other there.
\<close>

fun undefined_to_null :: "jsval \<Rightarrow> jsval" where
  "undefined_to_null JUndefined = JNull"
| "undefined_to_null v = v"

fun json_copy :: "jsval \<Rightarrow> jsval" where
  "json_copy (JArr xs) = JArr (map (\<lambda>x. undefined_to_null (json_copy x)) xs)"
| "json_copy (JObj kvs) =
     JObj (map (\<lambda>(k, v). (k, json_copy v)) (filter (\<lambda>(k, v). v \<noteq> JUndefined) kvs))"
| "json_copy v = v"

text \<open>
  The string a value becomes when it is used as a property key (\<^verbatim>\<open>String(v)\<close>), as in
  \<^verbatim>\<open>uniqueQueue[query.request.requestId]\<close>.
\<close>

fun digit_char :: "nat \<Rightarrow> char" where
  "digit_char n = char_of (48 + n)"

fun string_of_nat :: "nat \<Rightarrow> string" where
  "string_of_nat n =
     (if n < 10 then [digit_char n] else string_of_nat (n div 10) @ [digit_char (n mod 10)])"

definition string_of_int :: "int \<Rightarrow> string" where
  "string_of_int i = (if i < 0 then CHR ''-'' # string_of_nat (nat (- i)) else string_of_nat (nat i))"

fun join_comma :: "string list \<Rightarrow> string" where
  "join_comma [] = []"
| "join_comma [s] = s"
| "join_comma (s # t # ss) = s @ '','' @ join_comma (t # ss)"

fun to_property_key :: "jsval \<Rightarrow> string" where
  "to_property_key JUndefined = ''undefined''"
| "to_property_key JNull = ''null''"
| "to_property_key (JBool b) = (if b then ''true'' else ''false'')"
| "to_property_key (JNum n) = string_of_int n"
| "to_property_key (JStr s) = s"
| "to_property_key (JArr xs) =
     join_comma (map (\<lambda>x. if x = JUndefined \<or> x = JNull then [] else to_property_key x) xs)"
| "to_property_key (JObj kvs) = ''[object Object]''"

section \<open>Kuzzle: state of one SDK instance\<close>

text \<open>
  The prototype of a request. \<^verbatim>\<open>JSON.parse\<close> leaves it \<^verbatim>\<open>Object.prototype\<close>. The
  assignment of line 823, \<^verbatim>\<open>request[key] = value\<close>, changes it when the key is
  \<^verbatim>\<open>__proto__\<close> and the assignment reaches the setter of \<^verbatim>\<open>Object.prototype\<close>: an object,
  an array or null of the options then becomes the prototype of the request.
\<close>

datatype proto = ObjectPrototype | NullPrototype | ObjectValue obj | ArrayValue "jsval list"

text \<open>
  What a request without an own property \<open>k\<close> reads under \<open>k\<close> through its prototype, for
  the keys this code reads on a request (\<^verbatim>\<open>requestId\<close>, \<^verbatim>\<open>action\<close>, \<^verbatim>\<open>controller\<close>,
  \<^verbatim>\<open>refresh\<close>, \<^verbatim>\<open>retryOnConflict\<close>, \<^verbatim>\<open>volatile\<close>): none of them is an index or
  \<^verbatim>\<open>length\<close>, nor a property of \<^verbatim>\<open>Array.prototype\<close> or \<^verbatim>\<open>Object.prototype\<close>, so only an
  object put there by line 823 can provide it.
\<close>

definition inherited :: "proto \<Rightarrow> string \<Rightarrow> jsval" where
  "inherited pr k = (case pr of ObjectValue P \<Rightarrow> get_prop P k | _ \<Rightarrow> JUndefined)"

definition own_or_inherited :: "obj \<Rightarrow> proto \<Rightarrow> string \<Rightarrow> jsval" where
  "own_or_inherited r pr k = (if k \<in> set (keys r) then get_prop r k else inherited pr k)"

text \<open>
  A request as \<^verbatim>\<open>query\<close> dispatches it. What it reads as \<^verbatim>\<open>request.volatile\<close> is a
  reference: to the object held in \<^verbatim>\<open>kuzzle.volatile\<close> (line 838,
  \<^verbatim>\<open>request.volatile = this.volatile\<close>), to an object that is the request's own property,
  or to an object that is a property of the request's prototype. All other own properties
  are in \<open>props\<close>, and \<open>prototype\<close> holds the prototype without its \<^verbatim>\<open>volatile\<close> in the
  third case.
\<close>

datatype vref = SdkVolatile | OwnVolatile obj | InheritedVolatile obj

record request =
  props :: obj
  prototype :: proto
  volatile_ref :: vref

text \<open>\<^verbatim>\<open>request[k]\<close> for a dispatched request and one of the keys above but \<^verbatim>\<open>volatile\<close>.\<close>

definition request_get :: "request \<Rightarrow> string \<Rightarrow> jsval" where
  "request_get r k = own_or_inherited (props r) (prototype r) k"

text \<open>
  An entry of the offline queue: \<^verbatim>\<open>{ reject, request, resolve, timeout, ts }\<close>. The
  \<^verbatim>\<open>resolve\<close>/\<^verbatim>\<open>reject\<close> pair is identified by the number of its promise. An entry
  returned by an \<^verbatim>\<open>offlineQueueLoader\<close> may lack its request.
\<close>

record entry =
  request :: "request option"
  promise :: nat
  timeout :: int
  ts :: int

datatype auth_error =
    CheckTokenRejected
  | AuthenticatorNotAFunction
  | AuthenticatorRejected
  | AuthenticatorFailed

text \<open>
  What an emitted event carries: nothing, a request (\<^verbatim>\<open>offlineQueuePop\<close>), an object
  \<^verbatim>\<open>{ request }\<close> (\<^verbatim>\<open>offlineQueuePush\<close>, \<^verbatim>\<open>discarded\<close>), or the error of a
  \<^verbatim>\<open>reconnectionError\<close>: "authenticator property is not set" (line 672) or "Failed to
  authenticate the SDK after reconnection" with its cause (line 684).
\<close>

datatype payload =
    NoPayload
  | Req "request option"
  | Wrapped request
  | AuthenticatorNotSet
  | FailedToAuthenticate auth_error

text \<open>What the SDK does to the outside, in order.\<close>

datatype effect =
    Emit string payload
  | Reject nat string
  | ProtocolQuery "request option" int nat
  | SetTimeout int
  | AddListener string
  | ProtocolConnect
  | ProtocolClose

datatype authenticator = NoAuthenticator | NotAFunction | AuthenticatorFunction

text \<open>
  The state of the SDK. \<open>volatile\<close> is the object held in \<^verbatim>\<open>kuzzle.volatile\<close>, a plain
  object (the constructor, lines 258-259, takes it from its options or starts from
  \<^verbatim>\<open>{}\<close>).
\<close>

record kuzzle =
  protocol_ready :: bool
  protocol_id :: string
  sdkName :: string
  volatile :: obj
  eventTimeout :: int
  lastEmitted :: "string \<Rightarrow> int option"
  offlineQueue :: "entry list"
  autoQueue :: bool
  autoReplay :: bool
  offlineQueueLoader :: bool
  queueFilter :: "(obj \<Rightarrow> bool) option"
  queueMaxSize :: int
  queueTTL :: int
  replayInterval :: int
  requestTimeout :: int
  queuing :: bool
  reconnectInProgress :: bool
  loggedIn :: bool
  authenticator :: authenticator
  authenticateRequest :: "obj \<Rightarrow> obj"
  trace :: "effect list"

text \<open>
  \<^verbatim>\<open>emit\<close> (lines 545-560): an event of \<^verbatim>\<open>_protectedEvents\<close> is dropped when it was last
  emitted less than \<^verbatim>\<open>eventTimeout\<close> ago. Listeners only observe: an emission is an entry
  of the trace.
\<close>

definition protectedEvents :: "string list" where
  "protectedEvents =
     [''connected'', ''disconnected'', ''error'', ''loginAttempt'', ''reconnected'',
      ''tokenExpired'']"

definition superEmit :: "string \<Rightarrow> payload \<Rightarrow> kuzzle \<Rightarrow> kuzzle" where
  "superEmit eventName p st = st\<lparr>trace := trace st @ [Emit eventName p]\<rparr>"

definition recently_emitted :: "int \<Rightarrow> string \<Rightarrow> kuzzle \<Rightarrow> bool" where
  "recently_emitted now eventName st =
     (case lastEmitted st eventName of
        None \<Rightarrow> False
      | Some t \<Rightarrow> t \<noteq> 0 \<and> t > now - eventTimeout st)"

definition emit :: "int \<Rightarrow> string \<Rightarrow> payload \<Rightarrow> kuzzle \<Rightarrow> kuzzle" where
  "emit now eventName p st =
     (if eventName \<in> set protectedEvents then
        (if recently_emitted now eventName st then st
         else superEmit eventName p
                (st\<lparr>lastEmitted := (lastEmitted st)(eventName := Some now)\<rparr>))
      else superEmit eventName p st)"

definition startQueuing :: "kuzzle \<Rightarrow> kuzzle" where
  "startQueuing st = st\<lparr>queuing := True\<rparr>"

definition stopQueuing :: "kuzzle \<Rightarrow> kuzzle" where
  "stopQueuing st = st\<lparr>queuing := False\<rparr>"

definition reject :: "nat \<Rightarrow> string \<Rightarrow> kuzzle \<Rightarrow> kuzzle" where
  "reject p msg st = st\<lparr>trace := trace st @ [Reject p msg]\<rparr>"

text \<open>
  \<^verbatim>\<open>_timeoutRequest\<close> (lines 1117-1136): the request goes to \<^verbatim>\<open>protocol.query\<close>, raced
  against a timer unless the delay is -1. The third component names the promise settled
  with the outcome.
\<close>

definition timeoutRequest :: "int \<Rightarrow> request option \<Rightarrow> nat \<Rightarrow> kuzzle \<Rightarrow> kuzzle" where
  "timeoutRequest delay r p st = st\<lparr>trace := trace st @ [ProtocolQuery r delay p]\<rparr>"

section \<open>Kuzzle: the offline queue\<close>

text \<open>
  \<^verbatim>\<open>_cleanQueue\<close> (lines 1000-1037). The \<^verbatim>\<open>forEach\<close> of lines 1005-1009 leaves in
  \<^verbatim>\<open>lastDocumentIndex\<close> the index of the last entry whose \<^verbatim>\<open>ts\<close> is older than
  \<^verbatim>\<open>now - queueTTL\<close>, and -1 when there is none.
\<close>

fun lastDocumentIndex :: "int \<Rightarrow> int \<Rightarrow> entry list \<Rightarrow> int \<Rightarrow> int \<Rightarrow> int" where
  "lastDocumentIndex now ttl [] index found = found"
| "lastDocumentIndex now ttl (query # rest) index found =
     lastDocumentIndex now ttl rest (index + 1) (if ts query < now - ttl then index else found)"

definition ttl_message :: string where
  "ttl_message = ''Query aborted: queued time exceeded the queueTTL option value''"

definition maxsize_message :: string where
  "maxsize_message = ''Query aborted: too many queued requests (see the queueMaxSize option)''"

text \<open>The \<^verbatim>\<open>forEach\<close> over the spliced entries: each is announced, then rejected.\<close>

fun drop_requests :: "int \<Rightarrow> string \<Rightarrow> entry list \<Rightarrow> kuzzle \<Rightarrow> kuzzle" where
  "drop_requests now msg [] st = st"
| "drop_requests now msg (droppedRequest # rest) st =
     drop_requests now msg rest
       (reject (promise droppedRequest) msg
          (emit now ''offlineQueuePop'' (Req (request droppedRequest)) st))"

definition cleanQueue_ttl :: "int \<Rightarrow> kuzzle \<Rightarrow> kuzzle" where
  "cleanQueue_ttl now st =
     (if queueTTL st > 0 then
        (let found = lastDocumentIndex now (queueTTL st) (offlineQueue st) 0 (- 1) in
         if found \<noteq> - 1 then
           drop_requests now ttl_message (take (nat (found + 1)) (offlineQueue st))
             (st\<lparr>offlineQueue := drop (nat (found + 1)) (offlineQueue st)\<rparr>)
         else st)
      else st)"

definition cleanQueue_maxsize :: "int \<Rightarrow> kuzzle \<Rightarrow> kuzzle" where
  "cleanQueue_maxsize now st =
     (if queueMaxSize st > 0 \<and> int (length (offlineQueue st)) > queueMaxSize st then
        (let n = nat (int (length (offlineQueue st)) - queueMaxSize st) in
         drop_requests now maxsize_message (take n (offlineQueue st))
           (st\<lparr>offlineQueue := drop n (offlineQueue st)\<rparr>))
      else st)"

definition cleanQueue :: "int \<Rightarrow> kuzzle \<Rightarrow> kuzzle" where
  "cleanQueue now st = cleanQueue_maxsize now (cleanQueue_ttl now st)"

section \<open>Kuzzle: query\<close>

datatype error =
    InvalidRequest
  | InvalidOptions
  | TypeError
  | InvalidVolatile
  | InvalidOfflineQueueRequest
  | InvalidLoaderResult
  | LoaderFailed

text \<open>How a call of \<^verbatim>\<open>query\<close> ends when it does not throw.\<close>

datatype outcome = Queued | Discarded | Sent

text \<open>
  Lines 800-835: the request id, whether the request may be queued, its timeout, and the
  copy of every option but \<^verbatim>\<open>queuable\<close> and \<^verbatim>\<open>timeout\<close> into the request.
\<close>

definition assign_requestId :: "string \<Rightarrow> obj \<Rightarrow> obj" where
  "assign_requestId uuid r =
     (if \<not> truthy (get_prop r ''requestId'') then set_prop r ''requestId'' (JStr uuid) else r)"

definition is_queuable :: "kuzzle \<Rightarrow> obj \<Rightarrow> obj \<Rightarrow> bool" where
  "is_queuable st options r =
     (let queuable = (get_prop options ''queuable'' \<noteq> JBool False) in
      case queueFilter st of
        None \<Rightarrow> queuable
      | Some f \<Rightarrow> queuable \<and> f r)"

definition effective_timeout :: "kuzzle \<Rightarrow> obj \<Rightarrow> int" where
  "effective_timeout st options =
     (case get_prop options ''timeout'' of JNum n \<Rightarrow> n | _ \<Rightarrow> requestTimeout st)"

text \<open>
  \<^verbatim>\<open>request[key] = value\<close> (line 823). Every key but \<^verbatim>\<open>__proto__\<close> gives the request an
  own property. For \<^verbatim>\<open>__proto__\<close> the assignment looks the key up: an own property of the
  request, or of an object that is its prototype, makes it an ordinary assignment as well;
  otherwise it ends at the setter of \<^verbatim>\<open>Object.prototype\<close>, unless the prototype is null.
  The setter gives the request a new prototype when the value is an object, an array or
  null, and does nothing for any other value.
\<close>

definition reaches_proto_setter :: "obj \<Rightarrow> proto \<Rightarrow> bool" where
  "reaches_proto_setter r pr =
     (''__proto__'' \<notin> set (keys r)
      \<and> (case pr of
            NullPrototype \<Rightarrow> False
          | ObjectValue P \<Rightarrow> ''__proto__'' \<notin> set (keys P)
          | _ \<Rightarrow> True))"

definition set_prototype :: "jsval \<Rightarrow> proto \<Rightarrow> proto" where
  "set_prototype v pr =
     (case v of
        JNull \<Rightarrow> NullPrototype
      | JObj P \<Rightarrow> ObjectValue P
      | JArr xs \<Rightarrow> ArrayValue xs
      | _ \<Rightarrow> pr)"

definition assign :: "string \<Rightarrow> jsval \<Rightarrow> obj \<times> proto \<Rightarrow> obj \<times> proto" where
  "assign key v rp =
     (if key = ''__proto__'' \<and> reaches_proto_setter (fst rp) (snd rp)
      then (fst rp, set_prototype v (snd rp))
      else (set_prop (fst rp) key v, snd rp))"

fun copy_options :: "obj \<Rightarrow> obj \<times> proto \<Rightarrow> obj \<times> proto" where
  "copy_options [] rp = rp"
| "copy_options ((key, v) # rest) rp =
     copy_options rest (if key = ''queuable'' \<or> key = ''timeout'' then rp else assign key v rp)"

text \<open>Lines 826-835; the request is read through its prototype.\<close>

definition copy_if_missing :: "string \<Rightarrow> obj \<Rightarrow> obj \<times> proto \<Rightarrow> obj \<times> proto" where
  "copy_if_missing key options rp =
     (if own_or_inherited (fst rp) (snd rp) key = JUndefined \<and> get_prop options key \<noteq> JUndefined
      then (set_prop (fst rp) key (get_prop options key), snd rp) else rp)"

definition prepare_request :: "string \<Rightarrow> obj \<Rightarrow> obj \<Rightarrow> obj \<times> proto" where
  "prepare_request uuid options r =
     copy_if_missing ''retryOnConflict'' options
       (copy_if_missing ''refresh'' options
          (copy_options options (assign_requestId uuid r, ObjectPrototype)))"

text \<open>
  Lines 837-848, where \<^verbatim>\<open>request.volatile\<close> is read through the prototype: a request
  without a (truthy) \<^verbatim>\<open>volatile\<close> gets the SDK's own object, by reference, as an own
  property; a \<^verbatim>\<open>volatile\<close> that is not a plain object is refused.
\<close>

definition without_volatile :: "proto \<Rightarrow> proto" where
  "without_volatile pr =
     (case pr of ObjectValue P \<Rightarrow> ObjectValue (del_prop P ''volatile'') | _ \<Rightarrow> pr)"

definition resolve_volatile :: "obj \<times> proto \<Rightarrow> error + request" where
  "resolve_volatile rp =
     (let r = fst rp; pr = snd rp; v = own_or_inherited r pr ''volatile'' in
      if \<not> truthy v
      then Inr \<lparr>props = del_prop r ''volatile'', prototype = pr, volatile_ref = SdkVolatile\<rparr>
      else if \<not> typeof_object v \<or> isArray v then Inl InvalidVolatile
      else (case v of
              JObj own \<Rightarrow>
                Inr (if ''volatile'' \<in> set (keys r)
                     then \<lparr>props = del_prop r ''volatile'', prototype = pr,
                            volatile_ref = OwnVolatile own\<rparr>
                     else \<lparr>props = r, prototype = without_volatile pr,
                            volatile_ref = InheritedVolatile own\<rparr>)
            | _ \<Rightarrow> Inl InvalidVolatile))"

text \<open>Reading and writing through \<^verbatim>\<open>request.volatile\<close>.\<close>

definition read_volatile :: "kuzzle \<Rightarrow> request \<Rightarrow> obj" where
  "read_volatile st r =
     (case volatile_ref r of
        SdkVolatile \<Rightarrow> volatile st
      | OwnVolatile own \<Rightarrow> own
      | InheritedVolatile own \<Rightarrow> own)"

definition write_volatile :: "string \<Rightarrow> jsval \<Rightarrow> request \<times> kuzzle \<Rightarrow> request \<times> kuzzle" where
  "write_volatile k v rs =
     (case volatile_ref (fst rs) of
        SdkVolatile \<Rightarrow> (fst rs, (snd rs)\<lparr>volatile := set_prop (volatile (snd rs)) k v\<rparr>)
      | OwnVolatile own \<Rightarrow> ((fst rs)\<lparr>volatile_ref := OwnVolatile (set_prop own k v)\<rparr>, snd rs)
      | InheritedVolatile own \<Rightarrow>
          ((fst rs)\<lparr>volatile_ref := InheritedVolatile (set_prop own k v)\<rparr>, snd rs))"

text \<open>
  Lines 850-854: the loop over \<^verbatim>\<open>Object.keys(this.volatile)\<close>. The test of line 851 reads
  \<^verbatim>\<open>request.volatile[item]\<close> through \<^verbatim>\<open>Object.prototype\<close>; the assignment of line 852 is
  only reached when that read is undefined, where it sets an own property.
\<close>

fun merge_volatile :: "string list \<Rightarrow> request \<times> kuzzle \<Rightarrow> request \<times> kuzzle" where
  "merge_volatile [] rs = rs"
| "merge_volatile (item # items) rs =
     merge_volatile items
       (if reads_undefined (read_volatile (snd rs) (fst rs)) item
        then write_volatile item (get_prop (volatile (snd rs)) item) rs
        else rs)"

text \<open>Lines 855-857: \<^verbatim>\<open>x = x || default\<close> for the two markers.\<close>

definition set_marker :: "string \<Rightarrow> string \<Rightarrow> request \<times> kuzzle \<Rightarrow> request \<times> kuzzle" where
  "set_marker k dflt rs =
     (let cur = get_prop (read_volatile (snd rs) (fst rs)) k in
      write_volatile k (if truthy cur then cur else JStr dflt) rs)"

definition set_markers :: "request \<times> kuzzle \<Rightarrow> request \<times> kuzzle" where
  "set_markers rs =
     set_marker ''sdkName'' (sdkName (snd rs))
       (set_marker ''sdkInstanceId'' (protocol_id (snd rs)) rs)"

text \<open>
  Lines 859-891. \<^verbatim>\<open>auth.authenticateRequest\<close> belongs to the Auth controller; it is a
  parameter of the state and works on the properties other than \<^verbatim>\<open>volatile\<close>.
\<close>

definition dispatch :: "int \<Rightarrow> nat \<Rightarrow> bool \<Rightarrow> int \<Rightarrow> request \<times> kuzzle \<Rightarrow> outcome \<times> request \<times> kuzzle" where
  "dispatch now p queuable delay rs =
     (let r = (fst rs)\<lparr>props := authenticateRequest (snd rs) (props (fst rs))\<rparr>;
          st = snd rs
      in if queuing st then
           (if queuable then
              (let st1 = emit now ''offlineQueuePush'' (Wrapped r) (cleanQueue now st) in
               (Queued, r,
                st1\<lparr>offlineQueue := offlineQueue st1 @
                       [\<lparr>request = Some r, promise = p, timeout = delay, ts = now\<rparr>]\<rparr>))
            else (Discarded, r, emit now ''discarded'' (Wrapped r) st))
         else (Sent, r, timeoutRequest delay (Some r) p st))"

text \<open>The default of the second parameter: \<^verbatim>\<open>opts: JSONObject = {}\<close> (line 785).\<close>

definition default_options :: "jsval \<Rightarrow> jsval" where
  "default_options opts = (case opts of JUndefined \<Rightarrow> JObj [] | _ \<Rightarrow> opts)"

text \<open>
  \<^verbatim>\<open>query\<close> (lines 783-892). \<open>now\<close> is \<^verbatim>\<open>Date.now()\<close>, \<open>uuid\<close> what \<^verbatim>\<open>uuidv4()\<close> returns,
  \<open>p\<close> the promise handed back. A throw leaves the state as it was.
\<close>

definition query :: "int \<Rightarrow> string \<Rightarrow> nat \<Rightarrow> jsval \<Rightarrow> jsval \<Rightarrow> kuzzle \<Rightarrow> error + (outcome \<times> request \<times> kuzzle)" where
  "query now uuid p req opts st =
     (if \<not> typeof_object req \<or> isArray req then Inl InvalidRequest
      else if \<not> typeof_object (default_options opts) \<or> isArray (default_options opts)
      then Inl InvalidOptions
      else (case json_copy req of
              JObj request0 \<Rightarrow>
                (case json_copy (default_options opts) of
                   JObj options \<Rightarrow>
                     (let r = prepare_request uuid options request0 in
                      case resolve_volatile r of
                        Inl e \<Rightarrow> Inl e
                      | Inr r' \<Rightarrow>
                          Inr (dispatch now p
                                 (is_queuable st options (assign_requestId uuid request0))
                                 (effective_timeout st options)
                                 (set_markers (merge_volatile (keys (volatile st)) (r', st)))))
                 | _ \<Rightarrow> Inl TypeError)
            | _ \<Rightarrow> Inl TypeError))"

section \<open>Kuzzle: replaying the queue\<close>

text \<open>
  One run of \<^verbatim>\<open>dequeuingProcess\<close> (lines 1044-1059): the head of the queue is sent, shifted
  out and announced, and the next run is scheduled.
\<close>

definition dequeuingProcess_step :: "int \<Rightarrow> kuzzle \<Rightarrow> kuzzle" where
  "dequeuingProcess_step now st =
     (case offlineQueue st of
        [] \<Rightarrow> st
      | e # rest \<Rightarrow>
          (let st1 = timeoutRequest (timeout e) (request e) (promise e) st;
               st2 = emit now ''offlineQueuePop'' (Req (request e)) (st1\<lparr>offlineQueue := rest\<rparr>)
           in st2\<lparr>trace := trace st2 @ [SetTimeout (max 0 (replayInterval st2))]\<rparr>))"

text \<open>
  The whole replay: the runs that follow one another through \<^verbatim>\<open>setTimeout\<close> until the
  queue is empty, nothing else touching the queue in between.
\<close>

function dequeuingProcess :: "int \<Rightarrow> kuzzle \<Rightarrow> kuzzle" where
  "dequeuingProcess now st =
     (if offlineQueue st = [] then st
      else dequeuingProcess now (dequeuingProcess_step now st))"
  by pat_completeness auto


lemma offlineQueue_emit: "offlineQueue (emit now eventName p st) = offlineQueue st"
  by (simp add: emit_def superEmit_def)

lemma length_dequeuingProcess_step:
  "offlineQueue st \<noteq> [] \<Longrightarrow>
   length (offlineQueue (dequeuingProcess_step now st)) < length (offlineQueue st)"
  by (cases "offlineQueue st")
     (simp_all add: dequeuingProcess_step_def Let_def offlineQueue_emit timeoutRequest_def)

termination dequeuingProcess
  by (relation "measure (\<lambda>(now, st). length (offlineQueue st))")
     (simp_all add: length_dequeuingProcess_step)

declare dequeuingProcess.simps [simp del]

text \<open>
  The filter of lines 1075-1094 over \<^verbatim>\<open>additionalQueue.concat(this.offlineQueue)\<close>. \<open>seen\<close>
  holds the own properties of \<^verbatim>\<open>uniqueQueue\<close>. Assigning \<^verbatim>\<open>true\<close> to the key
  \<^verbatim>\<open>__proto__\<close> of a plain object creates no own property, so that key is never recorded.
  An entry without request, request id, action or controller throws; the three are read on
  the request through its prototype.
\<close>

fun uniqueQueue_filter :: "string list \<Rightarrow> entry list \<Rightarrow> error + entry list" where
  "uniqueQueue_filter seen [] = Inr []"
| "uniqueQueue_filter seen (q # rest) =
     (case request q of
        None \<Rightarrow> Inl InvalidOfflineQueueRequest
      | Some r \<Rightarrow>
          if request_get r ''requestId'' = JUndefined
             \<or> \<not> truthy (request_get r ''action'')
             \<or> \<not> truthy (request_get r ''controller'')
          then Inl InvalidOfflineQueueRequest
          else (let k = to_property_key (request_get r ''requestId'') in
                if k \<in> set seen then uniqueQueue_filter seen rest
                else (case uniqueQueue_filter (if k = ''__proto__'' then seen else k # seen) rest of
                        Inl e \<Rightarrow> Inl e
                      | Inr kept \<Rightarrow> Inr (q # kept))))"

text \<open>What the configured \<^verbatim>\<open>offlineQueueLoader\<close> does when it is called.\<close>

datatype loader_result = LoaderRejects | LoaderReturnsNoArray | LoaderReturns "entry list"

text \<open>
  \<^verbatim>\<open>_dequeue\<close> (lines 1042-1107). The loader slot only ever holds a function or null
  (constructor line 316, setter line 470). A failure leaves the queue as it was.
\<close>

definition dequeue :: "int \<Rightarrow> loader_result \<Rightarrow> kuzzle \<Rightarrow> error + kuzzle" where
  "dequeue now loaded st =
     (if offlineQueueLoader st then
        (case loaded of
           LoaderRejects \<Rightarrow> Inl LoaderFailed
         | LoaderReturnsNoArray \<Rightarrow> Inl InvalidLoaderResult
         | LoaderReturns additionalQueue \<Rightarrow>
             (case uniqueQueue_filter [] (additionalQueue @ offlineQueue st) of
                Inl e \<Rightarrow> Inl e
              | Inr q \<Rightarrow> Inr (dequeuingProcess now (st\<lparr>offlineQueue := q\<rparr>))))
      else Inr (dequeuingProcess now st))"

text \<open>\<^verbatim>\<open>playQueue\<close> (lines 913-919); it drops what \<^verbatim>\<open>_dequeue\<close> returns.\<close>

definition playQueue :: "int \<Rightarrow> loader_result \<Rightarrow> kuzzle \<Rightarrow> kuzzle" where
  "playQueue now loaded st =
     (if protocol_ready st then
        (case dequeue now loaded (cleanQueue now st) of
           Inl e \<Rightarrow> cleanQueue now st
         | Inr st' \<Rightarrow> st')
      else st)"

section \<open>Kuzzle: connection and re-authentication\<close>

text \<open>
  \<^verbatim>\<open>connect\<close> (lines 569-621). Each \<^verbatim>\<open>protocol.addListener\<close> call passes a function created
  by that very call of \<^verbatim>\<open>connect\<close>.
\<close>

definition transport_events :: "string list" where
  "transport_events =
     [''queryError'', ''tokenExpired'', ''connect'', ''networkError'', ''disconnect'',
      ''reconnect'', ''discarded'', ''websocketRenewalStart'', ''websocketRenewalDone'']"

definition connect :: "kuzzle \<Rightarrow> kuzzle" where
  "connect st =
     (if protocol_ready st then st
      else (let st1 = (if autoQueue st then startQueuing st else st) in
            st1\<lparr>trace := trace st1 @ map AddListener transport_events @ [ProtocolConnect]\<rparr>))"

text \<open>\<^verbatim>\<open>disconnect\<close> (lines 766-769).\<close>

definition disconnect :: "kuzzle \<Rightarrow> kuzzle" where
  "disconnect st = (st\<lparr>loggedIn := False\<rparr>)\<lparr>trace := trace st @ [ProtocolClose]\<rparr>"

text \<open>
  What the outside answers during a re-authentication: the first \<^verbatim>\<open>auth.checkToken()\<close>,
  whether the authenticator function resolves, and the \<^verbatim>\<open>auth.checkToken()\<close> after it.
\<close>

datatype check_token = CheckRejects | CheckResult bool string

record reauth_answers =
  first_check :: check_token
  authenticator_resolves :: bool
  second_check :: check_token

text \<open>\<^verbatim>\<open>isAuthenticated\<close> (lines 724-728): \<^verbatim>\<open>valid && kuid !== "-1"\<close>.\<close>

definition isAuthenticated :: "check_token \<Rightarrow> auth_error + bool" where
  "isAuthenticated c =
     (case c of
        CheckRejects \<Rightarrow> Inl CheckTokenRejected
      | CheckResult valid kuid \<Rightarrow> Inr (valid \<and> kuid \<noteq> ''-1''))"

text \<open>\<^verbatim>\<open>authenticate\<close> (lines 701-717).\<close>

definition authenticate :: "reauth_answers \<Rightarrow> kuzzle \<Rightarrow> (auth_error + unit) \<times> kuzzle" where
  "authenticate a st =
     (if authenticator st \<noteq> AuthenticatorFunction then (Inl AuthenticatorNotAFunction, st)
      else if \<not> authenticator_resolves a then (Inl AuthenticatorRejected, st)
      else (case isAuthenticated (second_check a) of
              Inl e \<Rightarrow> (Inl e, st)
            | Inr valid \<Rightarrow>
                (if \<not> valid then (Inl AuthenticatorFailed, st\<lparr>loggedIn := valid\<rparr>)
                 else (Inr (), st\<lparr>loggedIn := valid\<rparr>))))"

text \<open>
  \<^verbatim>\<open>tryReAuthenticate\<close> (lines 658-694): the \<^verbatim>\<open>try\<close> block, whose result is a value or a
  thrown error; the \<^verbatim>\<open>catch\<close> block; the \<^verbatim>\<open>finally\<close> block. The result of the whole is
  again a value (the promise resolves) or an error (the promise rejects).
\<close>

definition tryReAuthenticate_try :: "int \<Rightarrow> reauth_answers \<Rightarrow> kuzzle \<Rightarrow> (auth_error + bool) \<times> kuzzle" where
  "tryReAuthenticate_try now a st =
     (case isAuthenticated (first_check a) of
        Inl e \<Rightarrow> (Inl e, st)
      | Inr valid \<Rightarrow>
          (if valid then (Inr True, st)
           else if authenticator st = NoAuthenticator then
             (Inr False, emit now ''reconnectionError'' AuthenticatorNotSet st)
           else (case authenticate a st of
                   (Inl e, st') \<Rightarrow> (Inl e, st')
                 | (Inr u, st') \<Rightarrow> (Inr True, st'))))"

definition tryReAuthenticate :: "int \<Rightarrow> reauth_answers \<Rightarrow> kuzzle \<Rightarrow> (auth_error + bool) \<times> kuzzle" where
  "tryReAuthenticate now a st =
     (let tried = tryReAuthenticate_try now a (st\<lparr>reconnectInProgress := True\<rparr>);
          caught = (case fst tried of
                      Inl err \<Rightarrow>
                        (Inr False,
                         emit now ''reconnectionError'' (FailedToAuthenticate err) (snd tried))
                    | Inr b \<Rightarrow> (Inr b, snd tried))
      in (fst caught, (snd caught)\<lparr>reconnectInProgress := False\<rparr>))"

text \<open>
  \<^verbatim>\<open>_reconnect\<close> (lines 623-646). Were \<^verbatim>\<open>tryReAuthenticate\<close> to reject, \<^verbatim>\<open>_reconnect\<close>
  would stop there.
\<close>

definition reconnect_resume :: "int \<Rightarrow> loader_result \<Rightarrow> kuzzle \<Rightarrow> kuzzle" where
  "reconnect_resume now loaded st =
     emit now ''reconnected'' NoPayload (if autoReplay st then playQueue now loaded st else st)"

definition reconnect :: "int \<Rightarrow> reauth_answers \<Rightarrow> loader_result \<Rightarrow> kuzzle \<Rightarrow> kuzzle" where
  "reconnect now a loaded st =
     (if reconnectInProgress st then st
      else (let st1 = (if autoQueue st then stopQueuing st else st) in
            if loggedIn st1 then
              (case tryReAuthenticate now a st1 of
                 (Inl e, st2) \<Rightarrow> st2
               | (Inr ok, st2) \<Rightarrow>
                   (if \<not> ok then disconnect (st2\<lparr>loggedIn := False\<rparr>)
                    else reconnect_resume now loaded st2))
            else reconnect_resume now loaded st1))"

section \<open>Observer: realtime documents\<close>

text \<open>
  \<^verbatim>\<open>ObservedDocuments\<close> (lines 17-38): a \<^verbatim>\<open>Set<string>\<close> of document ids, in insertion
  order, with the room id of its subscription (null at first).
\<close>

record ObservedDocuments =
  ids :: "string list"
  roomId :: "string option"

definition set_add :: "string \<Rightarrow> string list \<Rightarrow> string list" where
  "set_add x xs = (if x \<in> set xs then xs else xs @ [x])"

definition set_delete :: "string \<Rightarrow> string list \<Rightarrow> string list" where
  "set_delete x xs = removeAll x xs"

text \<open>\<^verbatim>\<open>subscription.roomId ? ... : ...\<close>: null and the empty string are falsy.\<close>

definition roomId_truthy :: "string option \<Rightarrow> bool" where
  "roomId_truthy r = (case r of None \<Rightarrow> False | Some s \<Rightarrow> s \<noteq> [])"

definition documentUrn :: "string \<Rightarrow> string \<Rightarrow> string \<Rightarrow> string" where
  "documentUrn index collection ident = index @ '':'' @ collection @ '':'' @ ident"

definition collectionUrn :: "string \<Rightarrow> string \<Rightarrow> string" where
  "collectionUrn index collection = index @ '':'' @ collection"

text \<open>A document as the Document controller returns it: \<^verbatim>\<open>{ _id, _source }\<close>.\<close>

record document =
  d_id :: string
  d_source :: obj

text \<open>
  Modelled from the spec: the class \<^verbatim>\<open>RealtimeDocument\<close> (imported from
  \<^verbatim>\<open>./RealtimeDocument\<close>, not among the sources). The spec's TrackedDocument "owns a mutable
  content snapshot and a deleted flag"; the Observer reads its \<^verbatim>\<open>_id\<close>, \<^verbatim>\<open>_source\<close> and
  \<^verbatim>\<open>deleted\<close>.
\<close>

record RealtimeDocument =
  rt_id :: string
  rt_source :: obj
  deleted :: bool

definition new_RealtimeDocument :: "document \<Rightarrow> RealtimeDocument" where
  "new_RealtimeDocument d = \<lparr>rt_id = d_id d, rt_source = d_source d, deleted = False\<rparr>"

text \<open>Calls to the Realtime controller, in order.\<close>

datatype realtime_call =
    Subscribe string string "string list"
  | Unsubscribe "string option"

text \<open>
  The Observer. Realtime documents are objects shared with the application: \<open>heap\<close> maps
  a reference to the object, \<open>documents\<close> maps a document URN to the reference the
  Observer tracks.
\<close>

record observer =
  documentsByCollection :: "string \<rightharpoonup> ObservedDocuments"
  documents :: "string \<rightharpoonup> nat"
  heap :: "nat \<Rightarrow> RealtimeDocument"
  next_ref :: nat
  calls :: "realtime_call list"

text \<open>\<^verbatim>\<open>addDocument\<close> (lines 325-341).\<close>

definition addDocument :: "string \<Rightarrow> string \<Rightarrow> document \<Rightarrow> observer \<Rightarrow> nat \<times> observer" where
  "addDocument index collection d st =
     (let rtDocument = next_ref st;
          urn = collectionUrn index collection;
          observedDocuments =
            (case documentsByCollection st urn of
               None \<Rightarrow> \<lparr>ids = [], roomId = None\<rparr>
             | Some b \<Rightarrow> b)
      in (rtDocument,
          st\<lparr>heap := (heap st)(rtDocument := new_RealtimeDocument d),
             next_ref := rtDocument + 1,
             documentsByCollection :=
               (documentsByCollection st)
                 (urn \<mapsto> observedDocuments\<lparr>ids := set_add (d_id d) (ids observedDocuments)\<rparr>),
             documents := (documents st)(documentUrn index collection (d_id d) \<mapsto> rtDocument)\<rparr>))"

text \<open>
  \<^verbatim>\<open>resubscribe\<close> (lines 349-378). \<open>answer\<close> is the room id \<^verbatim>\<open>realtime.subscribe\<close>
  resolves to, or \<open>None\<close> when it rejects; its continuation runs at once.
\<close>

definition resubscribe :: "string \<Rightarrow> string \<Rightarrow> string option \<Rightarrow> observer \<Rightarrow> observer" where
  "resubscribe index collection answer st =
     (case documentsByCollection st (collectionUrn index collection) of
        None \<Rightarrow> st
      | Some subscription \<Rightarrow>
          if length (ids subscription) = 0 then
            (if roomId_truthy (roomId subscription)
             then st\<lparr>calls := calls st @ [Unsubscribe (roomId subscription)]\<rparr>
             else st)
          else
            (let st1 = st\<lparr>calls := calls st @ [Subscribe index collection (ids subscription)]\<rparr> in
             case answer of
               None \<Rightarrow> st1
             | Some newRoomId \<Rightarrow>
                 (let oldRoomId = roomId subscription;
                      st2 = st1\<lparr>documentsByCollection :=
                               (documentsByCollection st1)
                                 (collectionUrn index collection \<mapsto>
                                    subscription\<lparr>roomId := Some newRoomId\<rparr>)\<rparr>
                  in if roomId_truthy oldRoomId
                     then st2\<lparr>calls := calls st2 @ [Unsubscribe oldRoomId]\<rparr>
                     else st2)))"

text \<open>\<^verbatim>\<open>observe\<close> (lines 307-316).\<close>

definition observe :: "string \<Rightarrow> string \<Rightarrow> document \<Rightarrow> string option \<Rightarrow> observer \<Rightarrow> nat \<times> observer" where
  "observe index collection d answer st =
     (let added = addDocument index collection d st
      in (fst added, resubscribe index collection answer (snd added)))"

text \<open>\<^verbatim>\<open>disposeCollection\<close> (lines 172-182).\<close>

fun delete_documents :: "string \<Rightarrow> string \<Rightarrow> string list \<Rightarrow> (string \<rightharpoonup> nat) \<Rightarrow> (string \<rightharpoonup> nat)" where
  "delete_documents index collection [] m = m"
| "delete_documents index collection (i # rest) m =
     delete_documents index collection rest (m(documentUrn index collection i := None))"

definition disposeCollection :: "string \<Rightarrow> string \<Rightarrow> observer \<Rightarrow> error option \<times> observer" where
  "disposeCollection index collection st =
     (case documentsByCollection st (collectionUrn index collection) of
        None \<Rightarrow> (Some TypeError, st)
      | Some observedDocuments \<Rightarrow>
          (None,
           st\<lparr>documents := delete_documents index collection (ids observedDocuments) (documents st),
              documentsByCollection :=
                (documentsByCollection st)(collectionUrn index collection := None),
              calls := calls st @ [Unsubscribe (roomId observedDocuments)]\<rparr>))"

text \<open>A document notification: \<^verbatim>\<open>{ index, collection, event, result: { _id, _source } }\<close>.\<close>

record notification =
  n_index :: string
  n_collection :: string
  n_event :: string
  result_id :: string
  result_source :: obj

text \<open>\<^verbatim>\<open>Object.assign(target, source)\<close>.\<close>

fun object_assign :: "obj \<Rightarrow> obj \<Rightarrow> obj" where
  "object_assign target [] = target"
| "object_assign target ((k, v) # rest) = object_assign (set_prop target k v) rest"

text \<open>
  \<^verbatim>\<open>notificationHandler\<close> (lines 385-413). Reading a property of \<^verbatim>\<open>undefined\<close> throws a
  TypeError: the first component is the error thrown, if any, the second the state left.
\<close>

definition notificationHandler :: "notification \<Rightarrow> string option \<Rightarrow> observer \<Rightarrow> error option \<times> observer" where
  "notificationHandler n answer st =
     (let index = n_index n;
          collection = n_collection n;
          rtDocument = documents st (documentUrn index collection (result_id n))
      in if n_event n \<noteq> ''delete'' then
           (if n_event n = ''write'' then
              (case rtDocument of
                 None \<Rightarrow> (Some TypeError, st)
               | Some r \<Rightarrow>
                   (None,
                    st\<lparr>heap := (heap st)
                          (r := (heap st r)\<lparr>rt_source :=
                                   object_assign (rt_source (heap st r)) (result_source n)\<rparr>)\<rparr>))
            else (None, st))
         else
           (case rtDocument of
              None \<Rightarrow> (Some TypeError, st)
            | Some r \<Rightarrow>
                (let st1 = st\<lparr>heap := (heap st)(r := (heap st r)\<lparr>deleted := True\<rparr>)\<rparr>;
                     st2 = st1\<lparr>documents :=
                              (documents st1)
                                (documentUrn index collection (rt_id (heap st1 r)) := None)\<rparr>
                 in case documentsByCollection st2 (collectionUrn index collection) of
                      None \<Rightarrow> (Some TypeError, st2)
                    | Some observedDocuments \<Rightarrow>
                        (let remaining = set_delete (result_id n) (ids observedDocuments);
                             st3 = st2\<lparr>documentsByCollection :=
                                      (documentsByCollection st2)
                                        (collectionUrn index collection \<mapsto>
                                           observedDocuments\<lparr>ids := remaining\<rparr>)\<rparr>;
                             st4 = (if length remaining = 0
                                    then st3\<lparr>documentsByCollection :=
                                             (documentsByCollection st3)
                                               (collectionUrn index collection := None)\<rparr>
                                    else st3)
                         in (None, resubscribe index collection answer st4)))))"

section \<open>Vocabulary of the theorems\<close>

text \<open>
  The effects of dropping one entry in \<^verbatim>\<open>_cleanQueue\<close> and of replaying one entry in
  \<^verbatim>\<open>dequeuingProcess\<close>.
\<close>

definition drop_effects :: "string \<Rightarrow> entry \<Rightarrow> effect list" where
  "drop_effects msg d = [Emit ''offlineQueuePop'' (Req (request d)), Reject (promise d) msg]"

definition replay_effects :: "int \<Rightarrow> entry \<Rightarrow> effect list" where
  "replay_effects interval e =
     [ProtocolQuery (request e) (timeout e) (promise e),
      Emit ''offlineQueuePop'' (Req (request e)),
      SetTimeout (max 0 interval)]"

text \<open>An entry is expired when it is older than the TTL.\<close>

definition expired :: "int \<Rightarrow> int \<Rightarrow> entry \<Rightarrow> bool" where
  "expired now ttl e = (ts e < now - ttl)"

text \<open>The number of entries up to and including the last expired one.\<close>

definition ttl_cut :: "int \<Rightarrow> int \<Rightarrow> entry list \<Rightarrow> nat" where
  "ttl_cut now ttl q = length (dropWhile (\<lambda>e. \<not> expired now ttl e) (rev q))"

text \<open>The number of entries in excess of a positive maximum.\<close>

definition maxsize_cut :: "int \<Rightarrow> entry list \<Rightarrow> nat" where
  "maxsize_cut m q = (if m > 0 \<and> int (length q) > m then nat (int (length q) - m) else 0)"

text \<open>A state with its SDK-wide volatile object blanked: all that \<^verbatim>\<open>query\<close> leaves alone
  before it dispatches.\<close>

definition others :: "kuzzle \<Rightarrow> kuzzle" where
  "others st = st\<lparr>volatile := []\<rparr>"

text \<open>
  The requests handed to the transport, and the requests announced by
  \<^verbatim>\<open>offlineQueuePush\<close>, each in the order of the trace.
\<close>

fun sent :: "effect list \<Rightarrow> request option list" where
  "sent [] = []"
| "sent (ProtocolQuery r d p # tr) = r # sent tr"
| "sent (x # tr) = sent tr"


text \<open>The state a call of \<^verbatim>\<open>query\<close> leaves (a throw leaves it as it was), and how it ended.\<close>

definition after_query :: "int \<Rightarrow> string \<Rightarrow> nat \<Rightarrow> jsval \<Rightarrow> jsval \<Rightarrow> kuzzle \<Rightarrow> kuzzle" where
  "after_query now uuid p req opts st =
     (case query now uuid p req opts st of Inl e \<Rightarrow> st | Inr res \<Rightarrow> snd (snd res))"

definition query_outcome :: "int \<Rightarrow> string \<Rightarrow> nat \<Rightarrow> jsval \<Rightarrow> jsval \<Rightarrow> kuzzle \<Rightarrow> outcome option" where
  "query_outcome now uuid p req opts st =
     (case query now uuid p req opts st of Inl e \<Rightarrow> None | Inr res \<Rightarrow> Some (fst res))"

definition dispatched :: "int \<Rightarrow> string \<Rightarrow> nat \<Rightarrow> jsval \<Rightarrow> jsval \<Rightarrow> kuzzle \<Rightarrow> request option" where
  "dispatched now uuid p req opts st =
     (case query now uuid p req opts st of Inl e \<Rightarrow> None | Inr res \<Rightarrow> Some (fst (snd res)))"


text \<open>The transport reports ready.\<close>

definition transport_ready :: "kuzzle \<Rightarrow> kuzzle" where
  "transport_ready st = st\<lparr>protocol_ready := True\<rparr>"



section \<open>States and inputs used as examples: Kuzzle\<close>

text \<open>The SDK as the constructor leaves it with default options (lines 216-388).\<close>

definition new_kuzzle :: kuzzle where
  "new_kuzzle =
     \<lparr>protocol_ready = False,
      protocol_id = ''protocol-uuid'',
      sdkName = ''js@7'',
      volatile = [],
      eventTimeout = 200,
      lastEmitted = (\<lambda>e. None),
      offlineQueue = [],
      autoQueue = False,
      autoReplay = False,
      offlineQueueLoader = False,
      queueFilter = None,
      queueMaxSize = 500,
      queueTTL = 120000,
      replayInterval = 10,
      requestTimeout = - 1,
      queuing = False,
      reconnectInProgress = False,
      loggedIn = False,
      authenticator = NoAuthenticator,
      authenticateRequest = (\<lambda>r. r),
      trace = []\<rparr>"

definition example_request :: "string \<Rightarrow> jsval" where
  "example_request rid =
     JObj [(''requestId'', JStr rid), (''controller'', JStr ''document''),
           (''action'', JStr ''get'')]"

definition example_calls :: "(int \<times> string \<times> nat \<times> jsval \<times> jsval) list" where
  "example_calls =
     [(1, ''uuid-a'', 0, example_request ''r0'', JObj []),
      (2, ''uuid-b'', 1, example_request ''r1'', JObj [])]"

text \<open>An SDK that queues at most one request, without TTL, and already holds one.\<close>

definition full_queue_of_one :: kuzzle where
  "full_queue_of_one =
     after_query 1 ''uuid-a'' 0 (example_request ''r0'') (JObj [])
       (startQueuing (new_kuzzle\<lparr>queueMaxSize := 1, queueTTL := 0\<rparr>))"

text \<open>A logged-in SDK whose token has become invalid, with no authenticator set.\<close>

definition logged_in_kuzzle :: kuzzle where
  "logged_in_kuzzle = new_kuzzle\<lparr>loggedIn := True, autoReplay := True\<rparr>"

definition token_invalid :: reauth_answers where
  "token_invalid =
     \<lparr>first_check = CheckResult False ''kuid-1'', authenticator_resolves = False,
      second_check = CheckResult False ''kuid-1''\<rparr>"

text \<open>How many listeners \<^verbatim>\<open>connect\<close> has registered on the protocol for an event.\<close>

definition registrations :: "string \<Rightarrow> kuzzle \<Rightarrow> nat" where
  "registrations ev st = count_list (trace st) (AddListener ev)"

text \<open>
  The key under which the filter of \<^verbatim>\<open>_dequeue\<close> records an entry, and the check it makes
  on every entry.
\<close>

definition entry_key :: "entry \<Rightarrow> string" where
  "entry_key e =
     (case request e of
        None \<Rightarrow> []
      | Some r \<Rightarrow> to_property_key (request_get r ''requestId''))"

definition well_formed_entry :: "entry \<Rightarrow> bool" where
  "well_formed_entry e =
     (case request e of
        None \<Rightarrow> False
      | Some r \<Rightarrow> request_get r ''requestId'' \<noteq> JUndefined
                 \<and> truthy (request_get r ''action'')
                 \<and> truthy (request_get r ''controller''))"

text \<open>
  The queue a replay would start from if, as the specification has it, only the loaded
  batch were deduplicated against itself (first occurrence wins) and the live queue
  appended as it is.
\<close>

fun first_occurrences :: "string list \<Rightarrow> entry list \<Rightarrow> entry list" where
  "first_occurrences seen [] = []"
| "first_occurrences seen (e # es) =
     (if entry_key e \<in> set seen then first_occurrences seen es
      else e # first_occurrences (entry_key e # seen) es)"

definition loaded_batch_only :: "entry list \<Rightarrow> entry list \<Rightarrow> entry list" where
  "loaded_batch_only additionalQueue live = first_occurrences [] additionalQueue @ live"

text \<open>A queued entry for a request id, settled through a given promise.\<close>

definition example_entry :: "string \<Rightarrow> nat \<Rightarrow> entry" where
  "example_entry rid p =
     \<lparr>request = Some \<lparr>props = [(''requestId'', JStr rid), (''controller'', JStr ''document''),
                                (''action'', JStr ''get'')],
                       prototype = ObjectPrototype, volatile_ref = SdkVolatile\<rparr>,
      promise = p, timeout = - 1, ts = 0\<rparr>"

definition loader_kuzzle :: kuzzle where
  "loader_kuzzle =
     new_kuzzle\<lparr>protocol_ready := True, offlineQueueLoader := True,
                offlineQueue := [example_entry ''a'' 0, example_entry ''b'' 1]\<rparr>"

section \<open>Vocabulary of the theorems: volatile data\<close>

text \<open>
  The value lines 855-857 leave under a key, given the value \<open>v\<close> found there: for the two
  marker keys a falsy \<open>v\<close> gives way to the SDK's own value.
\<close>

definition marker_or :: "kuzzle \<Rightarrow> string \<Rightarrow> jsval \<Rightarrow> jsval" where
  "marker_or st k v =
     (if k = ''sdkInstanceId'' then (if truthy v then v else JStr (protocol_id st))
      else if k = ''sdkName'' then (if truthy v then v else JStr (sdkName st))
      else v)"

text \<open>A request that brings a volatile mapping of its own.\<close>

definition request_with_volatile :: "obj \<Rightarrow> jsval" where
  "request_with_volatile v =
     JObj [(''requestId'', JStr ''r0''), (''controller'', JStr ''document''),
           (''action'', JStr ''get''), (''volatile'', JObj v)]"

text \<open>Options that bring a volatile mapping, the way the comment of lines 776-778 describes.\<close>

definition options_with_volatile :: "obj \<Rightarrow> jsval" where
  "options_with_volatile v = JObj [(''volatile'', JObj v)]"

section \<open>States and inputs used as examples\<close>

text \<open>A fresh Observer (lines 92-118), one document, and notifications about it.\<close>

definition new_observer :: observer where
  "new_observer =
     \<lparr>documentsByCollection = Map.empty,
      documents = Map.empty,
      heap = (\<lambda>r. \<lparr>rt_id = [], rt_source = [], deleted = False\<rparr>),
      next_ref = 0,
      calls = []\<rparr>"

definition example_document :: document where
  "example_document = \<lparr>d_id = ''doc-1'', d_source = [(''name'', JStr ''Ada'')]\<rparr>"

definition example_notification :: "string \<Rightarrow> notification" where
  "example_notification event =
     \<lparr>n_index = ''nyc'', n_collection = ''taxi'', n_event = event,
      result_id = ''doc-1'', result_source = [(''name'', JStr ''Bob'')]\<rparr>"

definition observing_one :: observer where
  "observing_one = snd (observe ''nyc'' ''taxi'' example_document (Some ''room-1'') new_observer)"

section \<open>Kuzzle: facts about the offline queue\<close>

lemma emit_offlineQueuePop:
  "emit now ''offlineQueuePop'' p st = st\<lparr>trace := trace st @ [Emit ''offlineQueuePop'' p]\<rparr>"
  by (simp add: emit_def protectedEvents_def superEmit_def)

lemma drop_requests_eq:
  "drop_requests now msg ds st = st\<lparr>trace := trace st @ concat (map (drop_effects msg) ds)\<rparr>"
  by (induction ds arbitrary: st) (simp_all add: emit_offlineQueuePop reject_def drop_effects_def)

lemma ttl_cut_Nil: "ttl_cut now ttl [] = 0"
  by (simp add: ttl_cut_def)

lemma ttl_cut_Cons:
  "ttl_cut now ttl (e # rest) =
     (if ttl_cut now ttl rest = 0 then (if expired now ttl e then 1 else 0)
      else Suc (ttl_cut now ttl rest))"
  by (auto simp add: ttl_cut_def dropWhile_append dropWhile_eq_Nil_conv)

lemma lastDocumentIndex_eq:
  "lastDocumentIndex now ttl q i f =
     (if ttl_cut now ttl q = 0 then f else i + int (ttl_cut now ttl q) - 1)"
proof (induction q arbitrary: i f)
  case Nil
  show ?case by (simp add: ttl_cut_Nil)
next
  case (Cons e rest)
  show ?case
    by (simp add: Cons.IH ttl_cut_Cons expired_def)
qed

lemma ttl_cut_le: "ttl_cut now ttl q \<le> length q"
  by (simp add: ttl_cut_def) (metis length_dropWhile_le length_rev)

lemma drop_ttl_cut_fresh:
  "e \<in> set (drop (ttl_cut now ttl q) q) \<Longrightarrow> \<not> expired now ttl e"
proof -
  assume a: "e \<in> set (drop (ttl_cut now ttl q) q)"
  have "drop (ttl_cut now ttl q) q = rev (takeWhile (\<lambda>e. \<not> expired now ttl e) (rev q))"
  proof -
    have "rev q = takeWhile (\<lambda>e. \<not> expired now ttl e) (rev q) @ dropWhile (\<lambda>e. \<not> expired now ttl e) (rev q)"
      by simp
    then have "q = rev (dropWhile (\<lambda>e. \<not> expired now ttl e) (rev q)) @ rev (takeWhile (\<lambda>e. \<not> expired now ttl e) (rev q))"
      by (metis rev_append rev_rev_ident)
    then show ?thesis
      by (metis append_eq_conv_conj length_rev ttl_cut_def)
  qed
  with a show ?thesis by (auto dest: set_takeWhileD)
qed

lemma cleanQueue_ttl_eq:
  "cleanQueue_ttl now st =
     (if queueTTL st > 0 then
        st\<lparr>offlineQueue := drop (ttl_cut now (queueTTL st) (offlineQueue st)) (offlineQueue st),
           trace := trace st @ concat (map (drop_effects ttl_message)
                      (take (ttl_cut now (queueTTL st) (offlineQueue st)) (offlineQueue st)))\<rparr>
      else st)"
  by (simp add: cleanQueue_ttl_def lastDocumentIndex_eq Let_def drop_requests_eq)

lemma cleanQueue_maxsize_eq:
  "cleanQueue_maxsize now st =
     st\<lparr>offlineQueue := drop (maxsize_cut (queueMaxSize st) (offlineQueue st)) (offlineQueue st),
        trace := trace st @ concat (map (drop_effects maxsize_message)
                   (take (maxsize_cut (queueMaxSize st) (offlineQueue st)) (offlineQueue st)))\<rparr>"
  by (simp add: cleanQueue_maxsize_def maxsize_cut_def Let_def drop_requests_eq)

lemma dequeuingProcess_step_Cons:
  "offlineQueue st = e # rest \<Longrightarrow>
   dequeuingProcess_step now st =
     st\<lparr>offlineQueue := rest, trace := trace st @ replay_effects (replayInterval st) e\<rparr>"
  by (simp add: dequeuingProcess_step_def Let_def emit_offlineQueuePop timeoutRequest_def
      replay_effects_def)

lemma dequeuingProcess_run:
  "offlineQueue st = q \<Longrightarrow>
   dequeuingProcess now st =
     st\<lparr>offlineQueue := [],
        trace := trace st @ concat (map (replay_effects (replayInterval st)) q)\<rparr>"
proof (induction q arbitrary: st)
  case Nil
  then show ?case by (subst dequeuingProcess.simps) simp
next
  case (Cons e rest)
  have step: "dequeuingProcess now st = dequeuingProcess now (dequeuingProcess_step now st)"
    using Cons.prems by (subst dequeuingProcess.simps) simp
  show ?case
    unfolding step dequeuingProcess_step_Cons [OF Cons.prems]
    by (subst Cons.IH) simp_all
qed

lemma sent_append: "sent (xs @ ys) = sent xs @ sent ys"
  by (induction xs rule: sent.induct) simp_all





lemma cleanQueue_expand:
  "cleanQueue now st =
     (let k = (if queueTTL st > 0 then ttl_cut now (queueTTL st) (offlineQueue st) else 0);
          q1 = drop k (offlineQueue st);
          m = maxsize_cut (queueMaxSize st) q1
      in st\<lparr>offlineQueue := drop m q1,
            trace := trace st @ concat (map (drop_effects ttl_message) (take k (offlineQueue st)))
                       @ concat (map (drop_effects maxsize_message) (take m q1))\<rparr>)"
  by (simp add: cleanQueue_def cleanQueue_ttl_eq cleanQueue_maxsize_eq Let_def)




lemma others_write_volatile: "others (snd (write_volatile k v rs)) = others (snd rs)"
  by (cases "volatile_ref (fst rs)") (simp_all add: write_volatile_def others_def)

lemma others_merge_volatile: "others (snd (merge_volatile items rs)) = others (snd rs)"
  by (induction items arbitrary: rs) (simp_all add: others_write_volatile)

lemma others_set_markers: "others (snd (set_markers rs)) = others (snd rs)"
  by (simp add: set_markers_def set_marker_def Let_def others_write_volatile)

lemma query_cases:
  assumes "query now uuid p req opts st = Inr (out, r, st')"
  shows "\<exists>queuable delay rs.
           (out, r, st') = dispatch now p queuable delay rs \<and> others (snd rs) = others st"
proof -
  from assms obtain request0 options r' where
    res: "dispatch now p
                 (is_queuable st options (assign_requestId uuid request0))
                 (effective_timeout st options)
                 (set_markers (merge_volatile (keys (volatile st)) (r', st))) = (out, r, st')"
    by (simp add: query_def Let_def split: if_splits jsval.splits sum.splits)
  have "others (snd (set_markers (merge_volatile (keys (volatile st)) (r', st)))) = others st"
    by (simp add: others_set_markers others_merge_volatile)
  with res show ?thesis by metis
qed

lemma others_fields:
  "offlineQueue (others st) = offlineQueue st"
  "trace (others st) = trace st"
  "queuing (others st) = queuing st"
  "queueTTL (others st) = queueTTL st"
  "queueMaxSize (others st) = queueMaxSize st"
  "offlineQueueLoader (others st) = offlineQueueLoader st"
  "protocol_ready (others st) = protocol_ready st"
  unfolding others_def by simp_all

lemma others_eq_fields:
  assumes "others a = others b"
  shows "offlineQueue a = offlineQueue b" "trace a = trace b" "queuing a = queuing b"
    "queueTTL a = queueTTL b" "queueMaxSize a = queueMaxSize b"
    "offlineQueueLoader a = offlineQueueLoader b" "protocol_ready a = protocol_ready b"
  using assms others_fields by metis+








lemma subseq_uniqueQueue_filter:
  "uniqueQueue_filter seen xs = Inr q \<Longrightarrow> subseq q xs"
proof (induction xs arbitrary: seen q)
  case Nil
  then show ?case by simp
next
  case (Cons x xs)
  from Cons.prems obtain r where r: "request x = Some r"
    by (cases "request x") simp_all
  let ?k = "to_property_key (request_get r ''requestId'')"
  show ?case
  proof (cases "?k \<in> set seen")
    case True
    then have "uniqueQueue_filter seen xs = Inr q"
      using Cons.prems r by (simp add: Let_def split: if_splits)
    then have "subseq q xs" by (rule Cons.IH)
    then show ?thesis by (rule list_emb_Cons)
  next
    case False
    then obtain kept where kept: "uniqueQueue_filter (if ?k = ''__proto__'' then seen else ?k # seen) xs = Inr kept"
      and q: "q = x # kept"
      using Cons.prems r by (auto simp add: Let_def split: if_splits sum.splits)
    have "subseq kept xs" using kept by (rule Cons.IH)
    then show ?thesis unfolding q by simp
  qed
qed


lemma offlineQueue_playQueue_no_loader:
  "protocol_ready st \<Longrightarrow> \<not> offlineQueueLoader st \<Longrightarrow> offlineQueue (playQueue now loaded st) = []"
proof -
  assume a: "protocol_ready st" "\<not> offlineQueueLoader st"
  have "\<not> offlineQueueLoader (cleanQueue now st)"
    using a(2) by (simp add: cleanQueue_expand Let_def)
  then show ?thesis
    using a(1) by (simp add: playQueue_def dequeue_def dequeuingProcess_run [OF refl])
qed

section \<open>Replay of the offline queue\<close>

lemmas query_eval =
  after_query_def query_outcome_def dispatched_def query_def default_options_def
  prepare_request_def own_or_inherited_def inherited_def assign_def reaches_proto_setter_def
  set_prototype_def without_volatile_def reads_undefined_def object_prototype_keys_def
  assign_requestId_def copy_if_missing_def get_prop_def resolve_volatile_def del_prop_def
  keys_def set_markers_def set_marker_def read_volatile_def write_volatile_def dispatch_def
  is_queuable_def effective_timeout_def cleanQueue_def cleanQueue_ttl_def
  cleanQueue_maxsize_def emit_def superEmit_def protectedEvents_def reject_def Let_def

lemmas example_eval =
  example_calls_def example_request_def new_kuzzle_def startQueuing_def transport_ready_def





section \<open>Eviction from the offline queue\<close>

text \<open>
  What \<^verbatim>\<open>_cleanQueue\<close> does, rule by rule: \<open>cleanQueue_expand\<close> gives the state it leaves
  (the queue without an oldest prefix, each dropped entry announced by
  \<^verbatim>\<open>offlineQueuePop\<close> and rejected with the message of its rule); the lemmas below read
  off it that no expired entry survives, that at most \<^verbatim>\<open>queueMaxSize\<close> entries survive,
  and that a rule whose parameter is not positive does nothing.
\<close>

lemma cleanQueue_removes_expired:
  assumes "queueTTL st > 0" and "e \<in> set (offlineQueue (cleanQueue now st))"
  shows "\<not> expired now (queueTTL st) e"
proof -
  let ?q1 = "drop (ttl_cut now (queueTTL st) (offlineQueue st)) (offlineQueue st)"
  have "e \<in> set (drop (maxsize_cut (queueMaxSize st) ?q1) ?q1)"
    using assms by (simp add: cleanQueue_expand Let_def del: drop_drop)
  then have "e \<in> set ?q1" by (rule in_set_dropD)
  then show ?thesis by (rule drop_ttl_cut_fresh)
qed

lemma cleanQueue_length_le:
  "queueMaxSize st > 0 \<Longrightarrow> int (length (offlineQueue (cleanQueue now st))) \<le> queueMaxSize st"
  by (simp add: cleanQueue_expand Let_def maxsize_cut_def)

lemma cleanQueue_length_exact:
  "queueMaxSize st > 0 \<Longrightarrow> queueTTL st \<le> 0 \<Longrightarrow> queueMaxSize st \<le> int (length (offlineQueue st)) \<Longrightarrow>
   int (length (offlineQueue (cleanQueue now st))) = queueMaxSize st"
  by (simp add: cleanQueue_expand Let_def maxsize_cut_def)

lemma cleanQueue_disabled:
  "queueTTL st \<le> 0 \<Longrightarrow> queueMaxSize st \<le> 0 \<Longrightarrow> cleanQueue now st = st"
  by (simp add: cleanQueue_expand Let_def maxsize_cut_def)

lemma dispatch_queued:
  assumes "dispatch now p queuable delay rs = (Queued, r, st')"
  shows "offlineQueue st' = offlineQueue (cleanQueue now (snd rs)) @
           [\<lparr>request = Some r, promise = p, timeout = delay, ts = now\<rparr>]"
  using assms
  by (auto simp add: dispatch_def Let_def offlineQueue_emit split: if_splits)

text \<open>
  C3. \<^verbatim>\<open>query\<close> cleans the queue before it pushes the new entry (lines 863-875). On a
  queue that already holds \<^verbatim>\<open>queueMaxSize\<close> entries or more, the call therefore leaves
  \<^verbatim>\<open>queueMaxSize + 1\<close> live entries, not \<^verbatim>\<open>queueMaxSize\<close>.
\<close>

theorem enqueue_on_full_queue_exceeds_queueMaxSize:
  assumes "queuing st" and "queueTTL st \<le> 0" and "0 < queueMaxSize st"
    and "queueMaxSize st \<le> int (length (offlineQueue st))"
    and "query_outcome now uuid p req opts st = Some Queued"
  shows "int (length (offlineQueue (after_query now uuid p req opts st))) = queueMaxSize st + 1"
proof -
  from assms(5) obtain r st' where q: "query now uuid p req opts st = Inr (Queued, r, st')"
    by (cases "query now uuid p req opts st") (auto simp add: query_outcome_def)
  from query_cases [OF q] obtain queuable delay rs where
    d: "(Queued, r, st') = dispatch now p queuable delay rs" and o: "others (snd rs) = others st"
    by blast
  have fields: "offlineQueue (snd rs) = offlineQueue st" "queueTTL (snd rs) = queueTTL st"
    "queueMaxSize (snd rs) = queueMaxSize st"
    using others_eq_fields [OF o] by simp_all
  have "int (length (offlineQueue (cleanQueue now (snd rs)))) = queueMaxSize st"
    using cleanQueue_length_exact [of "snd rs" now] assms(2,3,4) fields by simp
  moreover have "offlineQueue st' = offlineQueue (cleanQueue now (snd rs)) @
           [\<lparr>request = Some r, promise = p, timeout = delay, ts = now\<rparr>]"
    by (rule dispatch_queued) (rule d [symmetric])
  moreover have "after_query now uuid p req opts st = st'"
    using q by (simp add: after_query_def)
  ultimately show ?thesis by simp
qed

text \<open>
  With \<^verbatim>\<open>queueMaxSize = 1\<close> and one request queued, queuing a second one rejects nothing
  and leaves two live entries.
\<close>

theorem enqueue_on_full_queue_exceeds_queueMaxSize_witness:
  "length (offlineQueue full_queue_of_one) = 1
   \<and> queueMaxSize full_queue_of_one = 1
   \<and> length (offlineQueue (after_query 2 ''uuid-b'' 1 (example_request ''r1'') (JObj [])
                               full_queue_of_one)) = 2
   \<and> filter (\<lambda>x. case x of Reject pr msg \<Rightarrow> True | _ \<Rightarrow> False)
        (trace (after_query 2 ''uuid-b'' 1 (example_request ''r1'') (JObj [])
                  full_queue_of_one)) = []"
proof -
  have h: "queuing full_queue_of_one" "queueTTL full_queue_of_one \<le> 0"
    "0 < queueMaxSize full_queue_of_one"
    "queueMaxSize full_queue_of_one \<le> int (length (offlineQueue full_queue_of_one))"
    "query_outcome 2 ''uuid-b'' 1 (example_request ''r1'') (JObj []) full_queue_of_one
       = Some Queued"
    by (simp_all add: full_queue_of_one_def example_eval query_eval)
  have m: "queueMaxSize full_queue_of_one = 1" "length (offlineQueue full_queue_of_one) = 1"
    by (simp_all add: full_queue_of_one_def example_eval query_eval)
  have t: "filter (\<lambda>x. case x of Reject pr msg \<Rightarrow> True | _ \<Rightarrow> False)
        (trace (after_query 2 ''uuid-b'' 1 (example_request ''r1'') (JObj [])
                  full_queue_of_one)) = []"
    by (simp add: full_queue_of_one_def example_eval query_eval)
  show ?thesis
    using enqueue_on_full_queue_exceeds_queueMaxSize [OF h] m t by simp
qed

section \<open>Reconnection and re-authentication\<close>

lemma emit_reconnectionError:
  "emit now ''reconnectionError'' pl st = st\<lparr>trace := trace st @ [Emit ''reconnectionError'' pl]\<rparr>"
  by (simp add: emit_def protectedEvents_def superEmit_def)

lemma authenticate_frame:
  "trace (snd (authenticate a st)) = trace st \<and>
   offlineQueue (snd (authenticate a st)) = offlineQueue st"
  by (simp add: authenticate_def split: sum.splits)

lemma authenticate_failed_logged_out:
  "fst (authenticate a st) = Inl AuthenticatorFailed \<Longrightarrow> \<not> loggedIn (snd (authenticate a st))"
  by (auto simp add: authenticate_def isAuthenticated_def split: sum.splits if_splits check_token.splits)

text \<open>The \<^verbatim>\<open>try\<close> block changes the trace only where it answers \<^verbatim>\<open>false\<close> itself.\<close>

lemma tryReAuthenticate_try_frame:
  "offlineQueue (snd (tryReAuthenticate_try now a st)) = offlineQueue st \<and>
   trace (snd (tryReAuthenticate_try now a st))
     = trace st @ (if fst (tryReAuthenticate_try now a st) = Inr False
                   then [Emit ''reconnectionError'' AuthenticatorNotSet] else [])"
proof (cases "isAuthenticated (first_check a)")
  case (Inl e)
  then show ?thesis by (simp add: tryReAuthenticate_try_def)
next
  case (Inr valid)
  show ?thesis
  proof (cases "valid \<or> authenticator st = NoAuthenticator")
    case True
    then show ?thesis
      using Inr by (auto simp add: tryReAuthenticate_try_def emit_reconnectionError)
  next
    case False
    obtain res st' where au: "authenticate a st = (res, st')" by (cases "authenticate a st")
    have "trace st' = trace st" "offlineQueue st' = offlineQueue st"
      using authenticate_frame [of a st] au by simp_all
    then show ?thesis
      using Inr False au by (cases res) (simp_all add: tryReAuthenticate_try_def)
  qed
qed

lemma tryReAuthenticate_resolves: "\<exists>b. fst (tryReAuthenticate now a st) = Inr b"
  by (cases "fst (tryReAuthenticate_try now a (st\<lparr>reconnectInProgress := True\<rparr>))")
     (auto simp add: tryReAuthenticate_def Let_def)

lemma tryReAuthenticate_false:
  assumes "fst (tryReAuthenticate now a st) = Inr False"
  shows "\<exists>pl. trace (snd (tryReAuthenticate now a st)) = trace st @ [Emit ''reconnectionError'' pl]"
    and "offlineQueue (snd (tryReAuthenticate now a st)) = offlineQueue st"
proof -
  let ?st0 = "st\<lparr>reconnectInProgress := True\<rparr>"
  let ?tried = "tryReAuthenticate_try now a ?st0"
  have fr: "offlineQueue (snd ?tried) = offlineQueue st"
    "trace (snd ?tried) = trace st @ (if fst ?tried = Inr False
                   then [Emit ''reconnectionError'' AuthenticatorNotSet] else [])"
    using tryReAuthenticate_try_frame [of now a ?st0] by simp_all
  show "offlineQueue (snd (tryReAuthenticate now a st)) = offlineQueue st"
    using fr(1)
    by (cases "fst ?tried")
       (simp_all add: tryReAuthenticate_def Let_def emit_reconnectionError)
  show "\<exists>pl. trace (snd (tryReAuthenticate now a st)) = trace st @ [Emit ''reconnectionError'' pl]"
  proof (cases "fst ?tried")
    case (Inl err)
    then show ?thesis
      using fr(2) by (simp add: tryReAuthenticate_def Let_def emit_reconnectionError)
  next
    case (Inr b)
    then have "b = False" using assms by (simp add: tryReAuthenticate_def Let_def)
    then show ?thesis
      using fr(2) Inr by (simp add: tryReAuthenticate_def Let_def)
  qed
qed

lemma tryReAuthenticate_token_invalid_no_authenticator:
  assumes "isAuthenticated (first_check a) = Inr False" and "authenticator st = NoAuthenticator"
  shows "fst (tryReAuthenticate now a st) = Inr False"
    and "trace (snd (tryReAuthenticate now a st))
           = trace st @ [Emit ''reconnectionError'' AuthenticatorNotSet]"
  using assms
  by (simp_all add: tryReAuthenticate_def tryReAuthenticate_try_def Let_def
      emit_reconnectionError)

text \<open>
  C4. On a transport \<^verbatim>\<open>reconnect\<close> with no reconnection in progress and a user logged
  in: when re-authentication fails, all the SDK does is emit one \<^verbatim>\<open>reconnectionError\<close>
  and close the protocol (\<^verbatim>\<open>disconnect\<close>); it ends logged out, the offline queue is as it
  was, nothing is sent to the transport and \<^verbatim>\<open>reconnected\<close> is not emitted. An invalid token
  with no authenticator set is such a failure. \<^verbatim>\<open>tryReAuthenticate\<close> always resolves to a
  boolean, from any state and whatever the outside answers.
\<close>

theorem failed_reauthentication_on_reconnect:
  assumes "\<not> reconnectInProgress st" and "loggedIn st"
  shows "(\<exists>b. fst (tryReAuthenticate now a st') = Inr b)
     \<and> (isAuthenticated (first_check a) = Inr False \<and> authenticator st = NoAuthenticator
          \<longrightarrow> fst (tryReAuthenticate now a (if autoQueue st then stopQueuing st else st)) = Inr False)
     \<and> (fst (tryReAuthenticate now a (if autoQueue st then stopQueuing st else st)) = Inr False
          \<longrightarrow> (\<exists>pl. trace (reconnect now a loaded st)
                       = trace st @ [Emit ''reconnectionError'' pl, ProtocolClose])
              \<and> \<not> loggedIn (reconnect now a loaded st)
              \<and> offlineQueue (reconnect now a loaded st) = offlineQueue st)"
proof -
  let ?st1 = "if autoQueue st then stopQueuing st else st"
  have st1: "trace ?st1 = trace st" "offlineQueue ?st1 = offlineQueue st" "loggedIn ?st1"
    "authenticator ?st1 = authenticator st"
    using assms(2) by (simp_all add: stopQueuing_def)
  have part1: "\<exists>b. fst (tryReAuthenticate now a st') = Inr b"
    by (rule tryReAuthenticate_resolves)
  have part2: "isAuthenticated (first_check a) = Inr False \<and> authenticator st = NoAuthenticator
          \<longrightarrow> fst (tryReAuthenticate now a ?st1) = Inr False"
    using tryReAuthenticate_token_invalid_no_authenticator(1) [of a ?st1 now] st1(4) by simp
  have part3: "(\<exists>pl. trace (reconnect now a loaded st)
                       = trace st @ [Emit ''reconnectionError'' pl, ProtocolClose])
              \<and> \<not> loggedIn (reconnect now a loaded st)
              \<and> offlineQueue (reconnect now a loaded st) = offlineQueue st"
    if f: "fst (tryReAuthenticate now a ?st1) = Inr False"
  proof -
    obtain st2 where t: "tryReAuthenticate now a ?st1 = (Inr False, st2)"
      using f by (cases "tryReAuthenticate now a ?st1") simp
    from tryReAuthenticate_false [OF f] obtain pl where
      "trace st2 = trace st @ [Emit ''reconnectionError'' pl]" "offlineQueue st2 = offlineQueue st"
      using t st1 by auto
    moreover have "reconnect now a loaded st = disconnect (st2\<lparr>loggedIn := False\<rparr>)"
      using assms(1) st1(3) t by (simp add: reconnect_def Let_def)
    ultimately show ?thesis by (simp add: disconnect_def)
  qed
  show ?thesis using part1 part2 part3 by blast
qed

text \<open>
  A logged-in SDK with auto-replay on, whose token is found invalid on reconnection and
  which has no authenticator: one \<^verbatim>\<open>reconnectionError\<close>, then the close.
\<close>

theorem failed_reauthentication_on_reconnect_witness:
  "trace (reconnect 0 token_invalid LoaderRejects logged_in_kuzzle)
     = [Emit ''reconnectionError'' AuthenticatorNotSet, ProtocolClose]
   \<and> \<not> loggedIn (reconnect 0 token_invalid LoaderRejects logged_in_kuzzle)
   \<and> offlineQueue (reconnect 0 token_invalid LoaderRejects logged_in_kuzzle) = []
   \<and> fst (tryReAuthenticate 0 token_invalid logged_in_kuzzle) = Inr False"
proof -
  have h: "\<not> reconnectInProgress logged_in_kuzzle" "loggedIn logged_in_kuzzle"
    by (simp_all add: logged_in_kuzzle_def new_kuzzle_def)
  have c: "isAuthenticated (first_check token_invalid) = Inr False"
    "authenticator logged_in_kuzzle = NoAuthenticator" "\<not> autoQueue logged_in_kuzzle"
    "trace logged_in_kuzzle = []" "offlineQueue logged_in_kuzzle = []"
    by (simp_all add: token_invalid_def isAuthenticated_def logged_in_kuzzle_def new_kuzzle_def)
  have t: "trace (snd (tryReAuthenticate 0 token_invalid logged_in_kuzzle))
             = [Emit ''reconnectionError'' AuthenticatorNotSet]"
    using tryReAuthenticate_token_invalid_no_authenticator(2) [OF c(1,2), of 0] c(4) by simp
  from failed_reauthentication_on_reconnect [OF h, of 0 token_invalid logged_in_kuzzle LoaderRejects]
  have f: "fst (tryReAuthenticate 0 token_invalid logged_in_kuzzle) = Inr False"
    and r: "(\<exists>pl. trace (reconnect 0 token_invalid LoaderRejects logged_in_kuzzle)
                  = trace logged_in_kuzzle @ [Emit ''reconnectionError'' pl, ProtocolClose])
          \<and> \<not> loggedIn (reconnect 0 token_invalid LoaderRejects logged_in_kuzzle)
          \<and> offlineQueue (reconnect 0 token_invalid LoaderRejects logged_in_kuzzle)
              = offlineQueue logged_in_kuzzle"
    using c by simp_all
  have "reconnect 0 token_invalid LoaderRejects logged_in_kuzzle
          = disconnect ((snd (tryReAuthenticate 0 token_invalid logged_in_kuzzle))\<lparr>loggedIn := False\<rparr>)"
    using h c(3) f by (auto simp add: reconnect_def Let_def split: prod.splits)
  then have "trace (reconnect 0 token_invalid LoaderRejects logged_in_kuzzle)
     = [Emit ''reconnectionError'' AuthenticatorNotSet, ProtocolClose]"
    using t by (simp add: disconnect_def)
  then show ?thesis using r f c by simp
qed

section \<open>connect\<close>

lemma connect_ready: "protocol_ready st \<Longrightarrow> connect st = st"
  by (simp add: connect_def)

lemma protocol_ready_connect: "protocol_ready (connect st) = protocol_ready st"
  by (simp add: connect_def Let_def startQueuing_def)

lemma count_transport_events:
  "count_list (map AddListener transport_events) (AddListener ev)
     = (if ev \<in> set transport_events then 1 else 0)"
  by (simp add: transport_events_def)

lemma registrations_connect:
  "\<not> protocol_ready st \<Longrightarrow>
   registrations ev (connect st) = registrations ev st + (if ev \<in> set transport_events then 1 else 0)"
  by (simp add: registrations_def connect_def Let_def startQueuing_def count_transport_events)

lemma connect_funpow_not_ready:
  "\<not> protocol_ready st \<Longrightarrow> \<not> protocol_ready ((connect ^^ n) st)"
  by (induction n) (simp_all add: protocol_ready_connect)

text \<open>
  C7, as stated, fails: two calls of \<^verbatim>\<open>connect\<close> on a transport that is not ready (the
  handshake of the first call is still under way, or has failed) register every listener
  twice.
\<close>

theorem connect_twice_registers_twice:
  "registrations ''connect'' (connect (connect new_kuzzle)) = 2
   \<and> registrations ''reconnect'' (connect (connect new_kuzzle)) = 2
   \<and> registrations ''tokenExpired'' (connect (connect new_kuzzle)) \<noteq> 1"
  by (simp add: registrations_def connect_def Let_def new_kuzzle_def transport_events_def)

text \<open>
  C7, amended. \<^verbatim>\<open>connect\<close> changes nothing when the transport reports ready. Each call
  made while the transport is not ready registers one listener more for every transport
  event: after \<open>n\<close> such calls each event has \<open>n\<close> listeners more than before.
\<close>

theorem connect_registers_once_per_call:
  "(protocol_ready st \<longrightarrow> connect st = st)
   \<and> (\<not> protocol_ready st \<longrightarrow>
        registrations ev ((connect ^^ n) st)
          = registrations ev st + (if ev \<in> set transport_events then n else 0))"
proof -
  have "registrations ev ((connect ^^ n) st)
          = registrations ev st + (if ev \<in> set transport_events then n else 0)"
    if nr: "\<not> protocol_ready st"
  proof (induction n)
    case 0
    show ?case by simp
  next
    case (Suc n)
    have "\<not> protocol_ready ((connect ^^ n) st)"
      using nr by (rule connect_funpow_not_ready)
    then show ?case
      using Suc by (simp add: registrations_connect)
  qed
  then show ?thesis by (simp add: connect_ready)
qed

text \<open>Three calls on the fresh SDK: three \<^verbatim>\<open>disconnect\<close> listeners; on a ready transport, none.\<close>

theorem connect_registers_once_per_call_witness:
  "registrations ''disconnect'' ((connect ^^ 3) new_kuzzle) = 3
   \<and> connect (transport_ready new_kuzzle) = transport_ready new_kuzzle"
proof -
  have nr: "\<not> protocol_ready new_kuzzle" "protocol_ready (transport_ready new_kuzzle)"
    "registrations ''disconnect'' new_kuzzle = 0"
    "''disconnect'' \<in> set transport_events"
    by (simp_all add: new_kuzzle_def transport_ready_def registrations_def transport_events_def)
  show ?thesis
    using connect_registers_once_per_call [of new_kuzzle "''disconnect''" 3]
          connect_registers_once_per_call [of "transport_ready new_kuzzle" "''disconnect''" 0]
          nr
    by simp
qed

section \<open>Replay with a queue loader\<close>

lemma uniqueQueue_filter_well_formed:
  "list_all well_formed_entry xs \<Longrightarrow> \<exists>q. uniqueQueue_filter seen xs = Inr q"
proof (induction xs arbitrary: seen)
  case Nil
  show ?case by simp
next
  case (Cons x xs)
  from Cons.prems obtain r where r: "request x = Some r"
    by (cases "request x") (simp_all add: well_formed_entry_def)
  have ok: "request_get r ''requestId'' \<noteq> JUndefined"
    "truthy (request_get r ''action'')" "truthy (request_get r ''controller'')"
    using Cons.prems r by (simp_all add: well_formed_entry_def)
  have rest: "list_all well_formed_entry xs" using Cons.prems by simp
  show ?case
    using Cons.IH [OF rest, of seen]
          Cons.IH [OF rest, of "to_property_key (request_get r ''requestId'') # seen"]
    by (auto simp add: r ok Let_def)
qed

lemma uniqueQueue_filter_ill_formed:
  "\<not> list_all well_formed_entry xs \<Longrightarrow> uniqueQueue_filter seen xs = Inl InvalidOfflineQueueRequest"
proof (induction xs arbitrary: seen)
  case Nil
  then show ?case by simp
next
  case (Cons x xs)
  show ?case
  proof (cases "well_formed_entry x")
    case False
    then show ?thesis
      by (cases "request x") (auto simp add: well_formed_entry_def)
  next
    case True
    then obtain r where r: "request x = Some r"
      by (cases "request x") (simp_all add: well_formed_entry_def)
    have bad: "\<not> list_all well_formed_entry xs" using Cons.prems True by simp
    show ?thesis
      using True Cons.IH [OF bad] by (simp add: r well_formed_entry_def Let_def)
  qed
qed

text \<open>
  Of the entries with a given key the filter keeps the first one that comes after the keys
  already seen, and nothing else; of the key \<^verbatim>\<open>__proto__\<close>, which is never recorded, it
  keeps them all.
\<close>

lemma uniqueQueue_filter_keeps_first:
  assumes "uniqueQueue_filter seen xs = Inr q" and "''__proto__'' \<notin> set seen"
  shows "filter (\<lambda>e. entry_key e = k) q =
           (if k \<in> set seen then []
            else if k = ''__proto__'' then filter (\<lambda>e. entry_key e = k) xs
            else take 1 (filter (\<lambda>e. entry_key e = k) xs))"
  using assms
proof (induction xs arbitrary: seen q)
  case Nil
  then show ?case by simp
next
  case (Cons x xs)
  from Cons.prems(1) obtain r where r: "request x = Some r"
    by (cases "request x") simp_all
  let ?kx = "to_property_key (request_get r ''requestId'')"
  have kx: "entry_key x = ?kx" by (simp add: entry_key_def r)
  show ?case
  proof (cases "?kx \<in> set seen")
    case True
    then have f: "uniqueQueue_filter seen xs = Inr q"
      using Cons.prems(1) r by (simp add: Let_def split: if_splits)
    show ?thesis
      using Cons.IH [OF f Cons.prems(2)] True kx by auto
  next
    case False
    let ?seen' = "if ?kx = ''__proto__'' then seen else ?kx # seen"
    from False obtain kept where kept: "uniqueQueue_filter ?seen' xs = Inr kept"
      and q: "q = x # kept"
      using Cons.prems(1) r by (auto simp add: Let_def split: if_splits sum.splits)
    have p: "''__proto__'' \<notin> set ?seen'" using Cons.prems(2) by simp
    show ?thesis
      using Cons.IH [OF kept p] False kx unfolding q by (auto split: if_splits)
  qed
qed

text \<open>
  C5, as stated, fails: with a loader returning an entry for request id \<^verbatim>\<open>a\<close> and a live
  queue holding entries for \<^verbatim>\<open>a\<close> and \<^verbatim>\<open>b\<close>, the filter runs over the concatenation and
  drops the live entry for \<^verbatim>\<open>a\<close>; deduplicating the loaded batch alone would keep it.
\<close>

theorem loader_dedup_reaches_live_queue:
  "uniqueQueue_filter [] ([example_entry ''a'' 7] @ offlineQueue loader_kuzzle)
     = Inr [example_entry ''a'' 7, example_entry ''b'' 1]
   \<and> loaded_batch_only [example_entry ''a'' 7] (offlineQueue loader_kuzzle)
     = [example_entry ''a'' 7, example_entry ''a'' 0, example_entry ''b'' 1]
   \<and> sent (trace (playQueue 0 (LoaderReturns [example_entry ''a'' 7]) loader_kuzzle))
     = [request (example_entry ''a'' 7), request (example_entry ''b'' 1)]"
proof -
  have c: "cleanQueue 0 loader_kuzzle = loader_kuzzle"
    by (simp add: loader_kuzzle_def new_kuzzle_def example_entry_def cleanQueue_def
        cleanQueue_ttl_def cleanQueue_maxsize_def Let_def)
  have f: "uniqueQueue_filter [] ([example_entry ''a'' 7] @ offlineQueue loader_kuzzle)
     = Inr [example_entry ''a'' 7, example_entry ''b'' 1]"
    by (simp add: loader_kuzzle_def new_kuzzle_def example_entry_def get_prop_def request_get_def own_or_inherited_def keys_def Let_def)
  have l: "loaded_batch_only [example_entry ''a'' 7] (offlineQueue loader_kuzzle)
     = [example_entry ''a'' 7, example_entry ''a'' 0, example_entry ''b'' 1]"
    by (simp add: loaded_batch_only_def loader_kuzzle_def new_kuzzle_def)
  have ld: "offlineQueueLoader loader_kuzzle" "protocol_ready loader_kuzzle"
    "trace loader_kuzzle = []"
    by (simp_all add: loader_kuzzle_def new_kuzzle_def)
  have "sent (trace (playQueue 0 (LoaderReturns [example_entry ''a'' 7]) loader_kuzzle))
     = [request (example_entry ''a'' 7), request (example_entry ''b'' 1)]"
    using f ld
    by (simp add: playQueue_def c dequeue_def dequeuingProcess_run [OF refl] sent_append
        replay_effects_def)
  then show ?thesis using f l by simp
qed

text \<open>
  C5, amended. With a loader configured and returning an array, the uniqueness check runs
  over the loaded batch followed by the live queue. If every entry of both carries a
  request with a request id, an action and a controller, the replay starts from a queue
  \<open>q\<close> that keeps their order and holds, for each key, the first entry of the
  concatenation with that key and no other (for the key \<^verbatim>\<open>__proto__\<close>: all of them), so
  that a live entry whose id a loaded entry carries is dropped. If one entry, loaded or
  live, lacks one of these, the replay fails as a whole and the queue stays as it was.
\<close>

theorem loader_dedup_spans_loaded_and_live:
  assumes "offlineQueueLoader st"
  shows "(\<not> list_all well_formed_entry (additionalQueue @ offlineQueue st) \<longrightarrow>
            dequeue now (LoaderReturns additionalQueue) st = Inl InvalidOfflineQueueRequest)
     \<and> (list_all well_formed_entry (additionalQueue @ offlineQueue st) \<longrightarrow>
          (\<exists>q. dequeue now (LoaderReturns additionalQueue) st
                  = Inr (dequeuingProcess now (st\<lparr>offlineQueue := q\<rparr>))
              \<and> subseq q (additionalQueue @ offlineQueue st)
              \<and> (\<forall>k. filter (\<lambda>e. entry_key e = k) q =
                     (if k = ''__proto__''
                      then filter (\<lambda>e. entry_key e = k) (additionalQueue @ offlineQueue st)
                      else take 1 (filter (\<lambda>e. entry_key e = k)
                                     (additionalQueue @ offlineQueue st))))))"
proof -
  let ?xs = "additionalQueue @ offlineQueue st"
  have bad: "dequeue now (LoaderReturns additionalQueue) st = Inl InvalidOfflineQueueRequest"
    if "\<not> list_all well_formed_entry ?xs"
    using uniqueQueue_filter_ill_formed [OF that, of "[]"] assms by (simp add: dequeue_def)
  have good: "\<exists>q. dequeue now (LoaderReturns additionalQueue) st
                  = Inr (dequeuingProcess now (st\<lparr>offlineQueue := q\<rparr>))
              \<and> subseq q ?xs
              \<and> (\<forall>k. filter (\<lambda>e. entry_key e = k) q =
                     (if k = ''__proto__'' then filter (\<lambda>e. entry_key e = k) ?xs
                      else take 1 (filter (\<lambda>e. entry_key e = k) ?xs)))"
    if wf: "list_all well_formed_entry ?xs"
  proof -
    from uniqueQueue_filter_well_formed [OF wf, of "[]"] obtain q where
      q: "uniqueQueue_filter [] ?xs = Inr q" by blast
    have "dequeue now (LoaderReturns additionalQueue) st
            = Inr (dequeuingProcess now (st\<lparr>offlineQueue := q\<rparr>))"
      using q assms by (simp add: dequeue_def)
    moreover have "subseq q ?xs" using q by (rule subseq_uniqueQueue_filter)
    moreover have "\<forall>k. filter (\<lambda>e. entry_key e = k) q =
                     (if k = ''__proto__'' then filter (\<lambda>e. entry_key e = k) ?xs
                      else take 1 (filter (\<lambda>e. entry_key e = k) ?xs))"
      using uniqueQueue_filter_keeps_first [OF q] by simp
    ultimately show ?thesis by blast
  qed
  show ?thesis using bad good by blast
qed

text \<open>
  The loader returns entries for \<^verbatim>\<open>a\<close> and \<^verbatim>\<open>c\<close>; the live queue holds \<^verbatim>\<open>a\<close> and \<^verbatim>\<open>b\<close>. Of
  the two entries for \<^verbatim>\<open>a\<close> the replay keeps the loaded one only.
\<close>

theorem loader_dedup_spans_loaded_and_live_witness:
  "\<exists>q. dequeue 0 (LoaderReturns [example_entry ''a'' 7, example_entry ''c'' 8]) loader_kuzzle
          = Inr (dequeuingProcess 0 (loader_kuzzle\<lparr>offlineQueue := q\<rparr>))
      \<and> filter (\<lambda>e. entry_key e = ''a'') q = [example_entry ''a'' 7]"
proof -
  have h: "offlineQueueLoader loader_kuzzle" by (simp add: loader_kuzzle_def new_kuzzle_def)
  have wf: "list_all well_formed_entry
              ([example_entry ''a'' 7, example_entry ''c'' 8] @ offlineQueue loader_kuzzle)"
    by (simp add: loader_kuzzle_def new_kuzzle_def well_formed_entry_def example_entry_def
        get_prop_def request_get_def own_or_inherited_def keys_def)
  have k: "filter (\<lambda>e. entry_key e = ''a'')
             ([example_entry ''a'' 7, example_entry ''c'' 8] @ offlineQueue loader_kuzzle)
           = [example_entry ''a'' 7, example_entry ''a'' 0]"
    by (simp add: loader_kuzzle_def new_kuzzle_def entry_key_def example_entry_def get_prop_def request_get_def own_or_inherited_def keys_def)
  from loader_dedup_spans_loaded_and_live
         [OF h, of "[example_entry ''a'' 7, example_entry ''c'' 8]" 0]
  obtain q where q: "dequeue 0 (LoaderReturns [example_entry ''a'' 7, example_entry ''c'' 8]) loader_kuzzle
          = Inr (dequeuingProcess 0 (loader_kuzzle\<lparr>offlineQueue := q\<rparr>))"
    and f: "\<forall>k. filter (\<lambda>e. entry_key e = k) q =
              (if k = ''__proto__''
               then filter (\<lambda>e. entry_key e = k)
                      ([example_entry ''a'' 7, example_entry ''c'' 8] @ offlineQueue loader_kuzzle)
               else take 1 (filter (\<lambda>e. entry_key e = k)
                      ([example_entry ''a'' 7, example_entry ''c'' 8] @ offlineQueue loader_kuzzle)))"
    using wf by blast
  have "filter (\<lambda>e. entry_key e = ''a'') q = [example_entry ''a'' 7]"
    using f [rule_format, of "''a''"] k by simp
  then show ?thesis using q by blast
qed

section \<open>Volatile data of a request\<close>

lemma get_prop_set_prop: "get_prop (set_prop ob k v) k' = (if k' = k then v else get_prop ob k')"
  by (induction ob) (auto simp add: get_prop_def)

lemma set_prop_same: "k \<in> set (keys ob) \<Longrightarrow> set_prop ob k (get_prop ob k) = ob"
proof (induction ob)
  case Nil
  then show ?case by (simp add: keys_def)
next
  case (Cons kv ob)
  obtain k' v' where kv: "kv = (k', v')" by (cases kv)
  show ?case
  proof (cases "k' = k")
    case True
    then show ?thesis by (simp add: kv get_prop_def)
  next
    case False
    then have "k \<in> set (keys ob)" using Cons.prems by (simp add: kv keys_def)
    then have "set_prop ob k (get_prop ob k) = ob" by (rule Cons.IH)
    moreover have "get_prop (kv # ob) k = get_prop ob k"
      using False by (simp add: kv get_prop_def)
    ultimately show ?thesis using False by (simp add: kv)
  qed
qed

lemma keys_set_prop: "set (keys (set_prop ob k v)) = insert k (set (keys ob))"
proof (induction ob)
  case Nil
  show ?case by (simp add: keys_def)
next
  case (Cons kv ob)
  obtain k' v' where kv: "kv = (k', v')" by (cases kv)
  have "set (keys (set_prop ob k v)) = insert k (set (keys ob))" by (rule Cons.IH)
  then show ?case by (auto simp add: kv keys_def)
qed

lemma key_set_prop: "k \<in> set (keys (set_prop ob k v))"
  by (simp add: keys_set_prop)

lemma json_copy_JObj: "json_copy v = JObj x \<Longrightarrow> typeof_object v \<and> \<not> isArray v"
  by (cases v) simp_all

lemma query_unfold:
  assumes "json_copy req = JObj request0" and "json_copy (default_options opts) = JObj options"
  shows "query now uuid p req opts st =
     (case resolve_volatile (prepare_request uuid options request0) of
        Inl e \<Rightarrow> Inl e
      | Inr r' \<Rightarrow>
          Inr (dispatch now p (is_queuable st options (assign_requestId uuid request0))
                 (effective_timeout st options)
                 (set_markers (merge_volatile (keys (volatile st)) (r', st)))))"
  using assms json_copy_JObj [OF assms(1)] json_copy_JObj [OF assms(2)]
  by (simp add: query_def Let_def)

lemma get_prop_not_key: "k \<notin> set (keys ob) \<Longrightarrow> get_prop ob k = JUndefined"
  by (simp add: get_prop_def keys_def map_of_eq_None_iff [THEN iffD2])

lemma reads_undefined_set_prop:
  "reads_undefined (set_prop ob k v) k' =
     (if k' = k then v = JUndefined else reads_undefined ob k')"
  by (simp add: reads_undefined_def keys_set_prop get_prop_set_prop)

lemma reads_undefined_get_prop: "reads_undefined ob k \<Longrightarrow> get_prop ob k = JUndefined"
  by (cases "k \<in> set (keys ob)") (simp_all add: reads_undefined_def get_prop_not_key)

text \<open>
  The loop of lines 850-854 on a request whose volatile is not the SDK's: an object of its
  own (\<open>C\<close> is \<open>OwnVolatile\<close>) or of its prototype (\<open>C\<close> is \<open>InheritedVolatile\<close>).
\<close>

lemma merge_volatile_own:
  assumes "C = OwnVolatile \<or> C = InheritedVolatile"
  shows "volatile_ref r = C own \<Longrightarrow>
   \<exists>own'. merge_volatile items (r, st) = (r\<lparr>volatile_ref := C own'\<rparr>, st)
     \<and> (\<forall>k. get_prop own' k =
            (if reads_undefined own k \<and> k \<in> set items then get_prop (volatile st) k
             else get_prop own k))"
proof (induction items arbitrary: r own)
  case Nil
  then show ?case by (intro exI [of _ own]) simp
next
  case (Cons item items)
  have rd: "read_volatile st r = own"
    using Cons.prems assms by (auto simp add: read_volatile_def)
  show ?case
  proof (cases "reads_undefined own item")
    case False
    from Cons.IH [OF Cons.prems] obtain own' where
      "merge_volatile items (r, st) = (r\<lparr>volatile_ref := C own'\<rparr>, st)"
      "\<forall>k. get_prop own' k =
            (if reads_undefined own k \<and> k \<in> set items then get_prop (volatile st) k
             else get_prop own k)"
      by blast
    then show ?thesis
      using False rd
      by (intro exI [of _ own']) auto
  next
    case True
    let ?own1 = "set_prop own item (get_prop (volatile st) item)"
    let ?r1 = "r\<lparr>volatile_ref := C ?own1\<rparr>"
    have r1: "volatile_ref ?r1 = C ?own1" by simp
    from Cons.IH [OF r1] obtain own' where
      m: "merge_volatile items (?r1, st) = (?r1\<lparr>volatile_ref := C own'\<rparr>, st)"
      and g: "\<forall>k. get_prop own' k =
            (if reads_undefined ?own1 k \<and> k \<in> set items then get_prop (volatile st) k
             else get_prop ?own1 k)"
      by blast
    have w: "write_volatile item (get_prop (volatile st) item) (r, st) = (?r1, st)"
      using Cons.prems assms by (auto simp add: write_volatile_def)
    have step: "merge_volatile (item # items) (r, st) = merge_volatile items (?r1, st)"
      using True rd w by simp
    show ?thesis
      unfolding step m
      using g True
      by (intro exI [of _ own']) (auto simp add: get_prop_set_prop reads_undefined_set_prop)
  qed
qed

text \<open>The same loop on a request that shares the SDK's object: it changes nothing.\<close>

lemma merge_volatile_shared:
  "volatile_ref r = SdkVolatile \<Longrightarrow> set items \<subseteq> set (keys (volatile st)) \<Longrightarrow>
   merge_volatile items (r, st) = (r, st)"
proof (induction items)
  case Nil
  show ?case by simp
next
  case (Cons item items)
  have "item \<in> set (keys (volatile st))" using Cons.prems(2) by simp
  then have "set_prop (volatile st) item (get_prop (volatile st) item) = volatile st"
    by (rule set_prop_same)
  then have "write_volatile item (get_prop (volatile st) item) (r, st) = (r, st)"
    using Cons.prems(1) by (simp add: write_volatile_def)
  then show ?case
    using Cons by simp
qed

text \<open>Lines 855-857 in both cases.\<close>

lemma set_markers_own:
  assumes "C = OwnVolatile \<or> C = InheritedVolatile"
  shows "volatile_ref r = C own \<Longrightarrow>
   \<exists>own'. set_markers (r, st) = (r\<lparr>volatile_ref := C own'\<rparr>, st)
     \<and> (\<forall>k. get_prop own' k = marker_or st k (get_prop own k))"
  using assms
  by (intro exI [of _ "set_prop (set_prop own ''sdkInstanceId''
        (marker_or st ''sdkInstanceId'' (get_prop own ''sdkInstanceId''))) ''sdkName''
        (marker_or st ''sdkName'' (get_prop own ''sdkName''))"])
     (auto simp add: set_markers_def set_marker_def Let_def read_volatile_def write_volatile_def
      get_prop_set_prop marker_or_def)

lemma set_markers_shared:
  "volatile_ref r = SdkVolatile \<Longrightarrow>
   set_markers (r, st) =
     (r, st\<lparr>volatile := set_prop (set_prop (volatile st) ''sdkInstanceId''
                            (marker_or st ''sdkInstanceId'' (get_prop (volatile st) ''sdkInstanceId'')))
                         ''sdkName'' (marker_or st ''sdkName'' (get_prop (volatile st) ''sdkName''))\<rparr>)"
  by (simp add: set_markers_def set_marker_def Let_def read_volatile_def write_volatile_def
      get_prop_set_prop marker_or_def)

text \<open>The dispatch itself leaves every volatile object alone.\<close>

lemma volatile_cleanQueue: "volatile (cleanQueue now st) = volatile st"
  by (simp add: cleanQueue_expand Let_def)

lemma volatile_emit: "volatile (emit now ev pl st) = volatile st"
  by (simp add: emit_def superEmit_def)

lemma dispatch_volatile:
  "dispatch now p queuable delay rs = (out, r, st') \<Longrightarrow>
   volatile st' = volatile (snd rs) \<and> volatile_ref r = volatile_ref (fst rs)"
  by (auto simp add: dispatch_def Let_def volatile_emit volatile_cleanQueue timeoutRequest_def
      split: if_splits)

lemma marker_or_defined:
  "marker_or st ''sdkInstanceId'' v \<noteq> JUndefined" "marker_or st ''sdkName'' v \<noteq> JUndefined"
  by (auto simp add: marker_or_def)

text \<open>Lines 850-857 as a whole, in both cases.\<close>

lemma volatile_stage_own:
  assumes "C = OwnVolatile \<or> C = InheritedVolatile" and "volatile_ref r' = C own"
  shows "\<exists>own2. set_markers (merge_volatile (keys (volatile st)) (r', st))
                  = (r'\<lparr>volatile_ref := C own2\<rparr>, st)
     \<and> (\<forall>k. get_prop own2 k =
            marker_or st k (if reads_undefined own k then get_prop (volatile st) k
                            else get_prop own k))"
proof -
  from merge_volatile_own [OF assms, of "keys (volatile st)" st] obtain own1 where
    m: "merge_volatile (keys (volatile st)) (r', st) = (r'\<lparr>volatile_ref := C own1\<rparr>, st)"
    and g1: "\<forall>k. get_prop own1 k =
            (if reads_undefined own k \<and> k \<in> set (keys (volatile st))
             then get_prop (volatile st) k else get_prop own k)"
    by blast
  have r1: "volatile_ref (r'\<lparr>volatile_ref := C own1\<rparr>) = C own1" by simp
  from set_markers_own [OF assms(1) r1, of st] obtain own2 where
    s: "set_markers (r'\<lparr>volatile_ref := C own1\<rparr>, st)
          = (r'\<lparr>volatile_ref := C own2\<rparr>, st)"
    and g2: "\<forall>k. get_prop own2 k = marker_or st k (get_prop own1 k)"
    by auto
  have "get_prop own1 k = (if reads_undefined own k then get_prop (volatile st) k
                            else get_prop own k)" for k
    using g1 get_prop_not_key [of k "volatile st"] reads_undefined_get_prop [of own k] by auto
  then show ?thesis
    using m s g2 by (intro exI [of _ own2]) simp
qed

lemma volatile_stage_shared:
  assumes "volatile_ref r' = SdkVolatile"
  shows "set_markers (merge_volatile (keys (volatile st)) (r', st)) =
     (r', st\<lparr>volatile := set_prop (set_prop (volatile st) ''sdkInstanceId''
                            (marker_or st ''sdkInstanceId'' (get_prop (volatile st) ''sdkInstanceId'')))
                         ''sdkName'' (marker_or st ''sdkName'' (get_prop (volatile st) ''sdkName''))\<rparr>)"
  using merge_volatile_shared [OF assms, of "keys (volatile st)" st] set_markers_shared [OF assms, of st]
  by simp

lemma read_volatile_cong:
  "volatile st' = volatile st \<Longrightarrow> volatile_ref r' = volatile_ref r \<Longrightarrow>
   read_volatile st' r' = read_volatile st r"
  by (simp add: read_volatile_def split: vref.splits)

lemma query_dispatched:
  assumes "json_copy req = JObj request0" and "json_copy (default_options opts) = JObj options"
    and "query now uuid p req opts st = Inr (out, r, st')"
  shows "\<exists>r'. resolve_volatile (prepare_request uuid options request0) = Inr r' \<and>
    dispatch now p (is_queuable st options (assign_requestId uuid request0))
      (effective_timeout st options)
      (set_markers (merge_volatile (keys (volatile st)) (r', st))) = (out, r, st')"
proof (cases "resolve_volatile (prepare_request uuid options request0)")
  case (Inl e)
  then show ?thesis using assms(3) by (simp add: query_unfold [OF assms(1,2)])
next
  case (Inr r')
  then show ?thesis using assms(3) by (simp add: query_unfold [OF assms(1,2)])
qed

text \<open>Lines 800-835 and the \<^verbatim>\<open>volatile\<close> property of the request.\<close>

lemma key_of_get_prop: "get_prop ob k \<noteq> JUndefined \<Longrightarrow> k \<in> set (keys ob)"
  using get_prop_not_key [of k ob] by blast

lemma get_prop_distinct:
  "distinct (keys ob) \<Longrightarrow> (k, v) \<in> set ob \<Longrightarrow> get_prop ob k = v"
  by (simp add: get_prop_def keys_def)

lemma member_of_get_prop: "get_prop ob k = v \<Longrightarrow> v \<noteq> JUndefined \<Longrightarrow> (k, v) \<in> set ob"
  by (auto simp add: get_prop_def split: option.splits dest: map_of_SomeD)

lemma assign_other:
  "key \<noteq> k \<Longrightarrow>
   (k \<in> set (keys (fst (assign key v rp)))) = (k \<in> set (keys (fst rp)))
   \<and> get_prop (fst (assign key v rp)) k = get_prop (fst rp) k"
  by (simp add: assign_def keys_set_prop get_prop_set_prop)

lemma copy_options_keeps:
  "k \<notin> set (keys options) \<Longrightarrow>
   (k \<in> set (keys (fst (copy_options options rp)))) = (k \<in> set (keys (fst rp)))
   \<and> get_prop (fst (copy_options options rp)) k = get_prop (fst rp) k"
proof (induction options arbitrary: rp)
  case Nil
  show ?case by simp
next
  case (Cons kv options)
  obtain key v where kv: "kv = (key, v)" by (cases kv)
  have ne: "key \<noteq> k" and rest: "k \<notin> set (keys options)"
    using Cons.prems by (auto simp add: kv keys_def)
  show ?case
    using Cons.IH [OF rest] assign_other [OF ne] by (simp add: kv)
qed

lemma copy_options_sets:
  "distinct (keys options) \<Longrightarrow> (k, v) \<in> set options \<Longrightarrow>
   k \<noteq> ''queuable'' \<Longrightarrow> k \<noteq> ''timeout'' \<Longrightarrow> k \<noteq> ''__proto__'' \<Longrightarrow>
   k \<in> set (keys (fst (copy_options options rp)))
   \<and> get_prop (fst (copy_options options rp)) k = v"
proof (induction options arbitrary: rp)
  case Nil
  then show ?case by simp
next
  case (Cons kv options)
  obtain key v' where kv: "kv = (key, v')" by (cases kv)
  have d: "distinct (keys options)" and nk: "key \<notin> set (keys options)"
    using Cons.prems(1) by (simp_all add: kv keys_def)
  show ?case
  proof (cases "(k, v) \<in> set options")
    case True
    from Cons.IH [OF d True Cons.prems(3,4,5)] show ?thesis by (simp add: kv)
  next
    case False
    then have h: "key = k" "v' = v" using Cons.prems(2) by (simp_all add: kv)
    have "k \<notin> set (keys options)" using nk h by simp
    from copy_options_keeps [OF this, of "assign k v rp"] show ?thesis
      using Cons.prems(3,4,5)
      by (simp add: kv h assign_def keys_set_prop get_prop_set_prop)
  qed
qed

lemma assign_requestId_other:
  "k \<noteq> ''requestId'' \<Longrightarrow>
   (k \<in> set (keys (assign_requestId uuid r))) = (k \<in> set (keys r))
   \<and> get_prop (assign_requestId uuid r) k = get_prop r k"
  by (simp add: assign_requestId_def keys_set_prop get_prop_set_prop)

lemma copy_if_missing_other:
  "key \<noteq> k \<Longrightarrow>
   (k \<in> set (keys (fst (copy_if_missing key options rp)))) = (k \<in> set (keys (fst rp)))
   \<and> get_prop (fst (copy_if_missing key options rp)) k = get_prop (fst rp) k"
  by (simp add: copy_if_missing_def keys_set_prop get_prop_set_prop)

lemma snd_copy_if_missing: "snd (copy_if_missing key options rp) = snd rp"
  by (simp add: copy_if_missing_def)

text \<open>
  A volatile object the caller supplies, in the request when the options have none or in
  the options, is the own property \<^verbatim>\<open>volatile\<close> of the request at line 837.
\<close>

lemma prepare_request_volatile:
  assumes "(''volatile'' \<notin> set (keys options) \<and> get_prop request0 ''volatile'' = JObj own)
     \<or> (distinct (keys options) \<and> get_prop options ''volatile'' = JObj own)"
  shows "''volatile'' \<in> set (keys (fst (prepare_request uuid options request0)))
     \<and> get_prop (fst (prepare_request uuid options request0)) ''volatile'' = JObj own"
proof -
  let ?start = "(assign_requestId uuid request0, ObjectPrototype)"
  have copied: "''volatile'' \<in> set (keys (fst (copy_options options ?start)))
     \<and> get_prop (fst (copy_options options ?start)) ''volatile'' = JObj own"
    using assms
  proof
    assume a: "''volatile'' \<notin> set (keys options) \<and> get_prop request0 ''volatile'' = JObj own"
    then have "''volatile'' \<in> set (keys request0)"
      by (intro key_of_get_prop) simp
    then show ?thesis
      using a copy_options_keeps [of "''volatile''" options ?start]
        assign_requestId_other [of "''volatile''" uuid request0]
      by simp
  next
    assume a: "distinct (keys options) \<and> get_prop options ''volatile'' = JObj own"
    then have "(''volatile'', JObj own) \<in> set options"
      by (intro member_of_get_prop) simp_all
    then show ?thesis
      using a copy_options_sets [of options "''volatile''" "JObj own" ?start] by simp
  qed
  show ?thesis
    unfolding prepare_request_def
    using copied
      copy_if_missing_other [of "''refresh''" "''volatile''" options "copy_options options ?start"]
      copy_if_missing_other [of "''retryOnConflict''" "''volatile''" options
        "copy_if_missing ''refresh'' options (copy_options options ?start)"]
    by simp
qed

lemma resolve_volatile_own:
  assumes "''volatile'' \<in> set (keys (fst rp))" and "get_prop (fst rp) ''volatile'' = JObj own"
  shows "resolve_volatile rp =
     Inr \<lparr>props = del_prop (fst rp) ''volatile'', prototype = snd rp,
          volatile_ref = OwnVolatile own\<rparr>"
  using assms by (simp add: resolve_volatile_def Let_def own_or_inherited_def)

text \<open>
  When neither the request nor the options bring a truthy \<^verbatim>\<open>volatile\<close>, the options not
  through a prototype either, line 837 reads a falsy value.
\<close>

lemma inherited_set_prototype:
  "inherited (set_prototype v pr) k =
     (case v of JObj P \<Rightarrow> get_prop P k | JNull \<Rightarrow> JUndefined | JArr xs \<Rightarrow> JUndefined
      | _ \<Rightarrow> inherited pr k)"
  by (cases v) (simp_all add: set_prototype_def inherited_def)

lemma copy_options_without_volatile:
  assumes "\<forall>v. (''volatile'', v) \<in> set options \<longrightarrow> \<not> truthy v"
    and "\<forall>P. (''__proto__'', JObj P) \<in> set options \<longrightarrow> \<not> truthy (get_prop P ''volatile'')"
  shows "\<not> truthy (get_prop (fst rp) ''volatile'') \<Longrightarrow> \<not> truthy (inherited (snd rp) ''volatile'') \<Longrightarrow>
     \<not> truthy (get_prop (fst (copy_options options rp)) ''volatile'')
     \<and> \<not> truthy (inherited (snd (copy_options options rp)) ''volatile'')"
  using assms
proof (induction options arbitrary: rp)
  case Nil
  then show ?case by simp
next
  case (Cons kv options)
  obtain key v where kv: "kv = (key, v)" by (cases kv)
  let ?rp1 = "if key = ''queuable'' \<or> key = ''timeout'' then rp else assign key v rp"
  have vol: "key = ''volatile'' \<Longrightarrow> \<not> truthy v"
    using Cons.prems(3) by (simp add: kv)
  have pro: "key = ''__proto__'' \<Longrightarrow> v = JObj P \<Longrightarrow> \<not> truthy (get_prop P ''volatile'')" for P
    using Cons.prems(4) by (simp add: kv)
  have own1: "\<not> truthy (get_prop (fst ?rp1) ''volatile'')"
    using Cons.prems(1) vol by (auto simp add: assign_def get_prop_set_prop)
  have inh1: "\<not> truthy (inherited (snd ?rp1) ''volatile'')"
    using Cons.prems(2) pro
    by (cases v) (auto simp add: assign_def inherited_set_prototype)
  have "\<not> truthy (get_prop (fst (copy_options options ?rp1)) ''volatile'')
     \<and> \<not> truthy (inherited (snd (copy_options options ?rp1)) ''volatile'')"
    using Cons.prems(3,4) by (intro Cons.IH [OF own1 inh1]) (simp_all add: kv)
  then show ?case by (simp add: kv)
qed

lemma prepare_request_without_volatile:
  assumes "\<not> truthy (get_prop request0 ''volatile'')"
    and "distinct (keys options)"
    and "\<not> truthy (get_prop options ''volatile'')"
    and "\<forall>P. get_prop options ''__proto__'' = JObj P \<longrightarrow> \<not> truthy (get_prop P ''volatile'')"
  shows "\<not> truthy (own_or_inherited (fst (prepare_request uuid options request0))
                     (snd (prepare_request uuid options request0)) ''volatile'')"
proof -
  let ?start = "(assign_requestId uuid request0, ObjectPrototype)"
  let ?copied = "copy_options options ?start"
  have v: "\<forall>v. (''volatile'', v) \<in> set options \<longrightarrow> \<not> truthy v"
    using assms(3) get_prop_distinct [OF assms(2)] by auto
  have p: "\<forall>P. (''__proto__'', JObj P) \<in> set options \<longrightarrow> \<not> truthy (get_prop P ''volatile'')"
    using assms(4) get_prop_distinct [OF assms(2)] by auto
  have s: "\<not> truthy (get_prop (fst ?start) ''volatile'')"
    "\<not> truthy (inherited (snd ?start) ''volatile'')"
    using assms(1) assign_requestId_other [of "''volatile''" uuid request0]
    by (simp_all add: inherited_def)
  from copy_options_without_volatile [OF v p s]
  have c: "\<not> truthy (get_prop (fst ?copied) ''volatile'')"
    "\<not> truthy (inherited (snd ?copied) ''volatile'')"
    by simp_all
  let ?prepared = "prepare_request uuid options request0"
  have "get_prop (fst ?prepared) ''volatile'' = get_prop (fst ?copied) ''volatile''"
    "snd ?prepared = snd ?copied"
    unfolding prepare_request_def
    using copy_if_missing_other [of "''refresh''" "''volatile''" options ?copied]
      copy_if_missing_other [of "''retryOnConflict''" "''volatile''" options
        "copy_if_missing ''refresh'' options ?copied"]
    by (simp_all add: snd_copy_if_missing)
  then show ?thesis
    using c by (simp add: own_or_inherited_def)
qed

lemma resolve_volatile_shared:
  assumes "\<not> truthy (own_or_inherited (fst rp) (snd rp) ''volatile'')"
  shows "resolve_volatile rp =
     Inr \<lparr>props = del_prop (fst rp) ''volatile'', prototype = snd rp,
          volatile_ref = SdkVolatile\<rparr>"
  using assms by (simp add: resolve_volatile_def Let_def)

text \<open>A call whose caller supplies a volatile object, as a whole.\<close>

lemma query_own_volatile:
  assumes "json_copy req = JObj request0" and "json_copy (default_options opts) = JObj options"
    and "(''volatile'' \<notin> set (keys options) \<and> get_prop request0 ''volatile'' = JObj own)
     \<or> (distinct (keys options) \<and> get_prop options ''volatile'' = JObj own)"
  shows "\<exists>out r st'. query now uuid p req opts st = Inr (out, r, st')
     \<and> volatile st' = volatile st
     \<and> (\<forall>k. get_prop (read_volatile st' r) k =
            marker_or st k (if reads_undefined own k then get_prop (volatile st) k
                            else get_prop own k))"
proof -
  let ?prepared = "prepare_request uuid options request0"
  let ?r' = "\<lparr>props = del_prop (fst ?prepared) ''volatile'', prototype = snd ?prepared,
              volatile_ref = OwnVolatile own\<rparr>"
  have rv: "resolve_volatile ?prepared = Inr ?r'"
    using prepare_request_volatile [OF assms(3), of uuid] by (intro resolve_volatile_own) simp_all
  have o: "volatile_ref ?r' = OwnVolatile own" by simp
  from volatile_stage_own [OF disjI1 [OF refl] o, of st] obtain own2 where
    s: "set_markers (merge_volatile (keys (volatile st)) (?r', st))
          = (?r'\<lparr>volatile_ref := OwnVolatile own2\<rparr>, st)" and
    g: "\<forall>k. get_prop own2 k =
            marker_or st k (if reads_undefined own k then get_prop (volatile st) k
                            else get_prop own k)"
    by blast
  obtain out r st' where d:
    "dispatch now p (is_queuable st options (assign_requestId uuid request0))
          (effective_timeout st options) (?r'\<lparr>volatile_ref := OwnVolatile own2\<rparr>, st)
       = (out, r, st')"
    by (cases "dispatch now p (is_queuable st options (assign_requestId uuid request0))
          (effective_timeout st options) (?r'\<lparr>volatile_ref := OwnVolatile own2\<rparr>, st)")
  have q: "query now uuid p req opts st = Inr (out, r, st')"
    unfolding query_unfold [OF assms(1,2)] rv using d s by simp
  have v: "volatile st' = volatile st" "volatile_ref r = OwnVolatile own2"
    using dispatch_volatile [OF d] by simp_all
  then have "read_volatile st' r = own2" by (simp add: read_volatile_def)
  then show ?thesis using q v(1) g by simp
qed

text \<open>
  C6, as stated, fails: a caller who supplies \<^verbatim>\<open>volatile: { sdkName: "" }\<close> finds the key
  overwritten in the dispatched request, by line 857
  (\<^verbatim>\<open>request.volatile.sdkName || this.sdkName\<close>).
\<close>

theorem caller_falsy_marker_is_overwritten:
  "\<exists>r. dispatched 0 ''uuid-a'' 0 (request_with_volatile [(''sdkName'', JStr '''')]) (JObj [])
          new_kuzzle = Some r
      \<and> get_prop (read_volatile
                     (after_query 0 ''uuid-a'' 0
                        (request_with_volatile [(''sdkName'', JStr '''')]) (JObj []) new_kuzzle) r)
           ''sdkName'' = JStr ''js@7''"
  by (simp add: request_with_volatile_def new_kuzzle_def query_eval timeoutRequest_def)

text \<open>
  Nor is every SDK-wide default merged: line 851 reads \<^verbatim>\<open>request.volatile[item]\<close> through
  \<^verbatim>\<open>Object.prototype\<close>, so a default under the key \<^verbatim>\<open>constructor\<close> finds the function
  \<^verbatim>\<open>Object\<close> there and is left out of the request's volatile.
\<close>

lemma default_named_constructor_is_not_merged:
  "(let st = new_kuzzle\<lparr>volatile := [(''constructor'', JStr ''sdk''), (''lang'', JStr ''en'')]\<rparr>;
        req = request_with_volatile [(''app'', JStr ''mine'')]
    in \<exists>r. dispatched 0 ''uuid-a'' 0 req (JObj []) st = Some r
         \<and> map (get_prop (read_volatile (after_query 0 ''uuid-a'' 0 req (JObj []) st) r))
              [''app'', ''constructor'', ''lang'']
           = [JStr ''mine'', JUndefined, JStr ''en''])"
proof -
  define st where "st = new_kuzzle\<lparr>volatile := [(''constructor'', JStr ''sdk''), (''lang'', JStr ''en'')]\<rparr>"
  define own where "own = [(''app'', JStr ''mine'')]"
  define request0 where "request0 = [(''requestId'', JStr ''r0''), (''controller'', JStr ''document''),
           (''action'', JStr ''get''), (''volatile'', JObj own)]"
  have c: "json_copy (request_with_volatile own) = JObj request0"
    "json_copy (default_options (JObj [])) = JObj []"
    by (simp_all add: request0_def own_def request_with_volatile_def default_options_def)
  have supplied: "(''volatile'' \<notin> set (keys []) \<and> get_prop request0 ''volatile'' = JObj own)
      \<or> (distinct (keys []) \<and> get_prop [] ''volatile'' = JObj own)"
    by (simp add: request0_def get_prop_def keys_def)
  from query_own_volatile [OF c supplied, of 0 "''uuid-a''" 0 st] obtain out r st' where
    q: "query 0 ''uuid-a'' 0 (request_with_volatile own) (JObj []) st = Inr (out, r, st')" and
    k: "\<And>k. get_prop (read_volatile st' r) k =
            marker_or st k (if reads_undefined own k then get_prop (volatile st) k
                            else get_prop own k)"
    by blast
  have u: "\<not> reads_undefined own ''app''" "\<not> reads_undefined own ''constructor''"
    "reads_undefined own ''lang''"
    by (simp_all add: reads_undefined_def own_def keys_def get_prop_def object_prototype_keys_def)
  have "map (get_prop (read_volatile st' r)) [''app'', ''constructor'', ''lang'']
           = [JStr ''mine'', JUndefined, JStr ''en'']"
    using u k [of "''app''"] k [of "''constructor''"] k [of "''lang''"]
    by (simp add: marker_or_def own_def st_def new_kuzzle_def get_prop_def)
  moreover have "dispatched 0 ''uuid-a'' 0 (request_with_volatile own) (JObj []) st = Some r"
    "after_query 0 ''uuid-a'' 0 (request_with_volatile own) (JObj []) st = st'"
    using q by (simp_all add: dispatched_def after_query_def)
  ultimately have "\<exists>r. dispatched 0 ''uuid-a'' 0 (request_with_volatile own) (JObj []) st = Some r
         \<and> map (get_prop (read_volatile
                   (after_query 0 ''uuid-a'' 0 (request_with_volatile own) (JObj []) st) r))
              [''app'', ''constructor'', ''lang'']
           = [JStr ''mine'', JUndefined, JStr ''en'']"
    by (intro exI [of _ r]) simp
  then show ?thesis
    unfolding Let_def st_def [symmetric] own_def [symmetric] .
qed

text \<open>
  C6, amended. For every request that \<^verbatim>\<open>query\<close> dispatches, the volatile mapping of the
  dispatched request carries \<^verbatim>\<open>sdkInstanceId\<close> and \<^verbatim>\<open>sdkName\<close>. When the caller supplies
  a volatile mapping, in the request while the options have none, or in the options (whose
  \<^verbatim>\<open>volatile\<close> line 823 puts in the place of the request's), then every key the caller
  supplied holds the caller's value, and every other key that does not name a property of
  \<^verbatim>\<open>Object.prototype\<close> holds the SDK-wide default; except that for the keys
  \<^verbatim>\<open>sdkInstanceId\<close> and \<^verbatim>\<open>sdkName\<close> a value that is falsy (absent, null, false, 0 or the
  empty string) is replaced by the protocol's id and the SDK's name. Nothing is said of a
  default whose key names a property of \<^verbatim>\<open>Object.prototype\<close> and which the caller did not
  supply.
\<close>

theorem volatile_merge_per_call_wins:
  assumes "json_copy req = JObj request0" and "json_copy (default_options opts) = JObj options"
    and "query now uuid p req opts st = Inr (out, r, st')"
  shows "get_prop (read_volatile st' r) ''sdkInstanceId'' \<noteq> JUndefined
     \<and> get_prop (read_volatile st' r) ''sdkName'' \<noteq> JUndefined
     \<and> (\<forall>own. (''volatile'' \<notin> set (keys options) \<and> get_prop request0 ''volatile'' = JObj own)
               \<or> (distinct (keys options) \<and> get_prop options ''volatile'' = JObj own) \<longrightarrow>
          (\<forall>k. k \<in> set (keys own) \<or> k \<notin> set object_prototype_keys \<longrightarrow>
             get_prop (read_volatile st' r) k =
               marker_or st k (if get_prop own k \<noteq> JUndefined then get_prop own k
                               else get_prop (volatile st) k)))"
proof -
  let ?prepared = "prepare_request uuid options request0"
  let ?stage = "\<lambda>r'. set_markers (merge_volatile (keys (volatile st)) (r', st))"
  from query_dispatched [OF assms] obtain r' where
    rv: "resolve_volatile ?prepared = Inr r'" and
    d: "dispatch now p (is_queuable st options (assign_requestId uuid request0))
          (effective_timeout st options) (?stage r') = (out, r, st')"
    by blast
  have rd: "read_volatile st' r = read_volatile (snd (?stage r')) (fst (?stage r'))"
    using dispatch_volatile [OF d] by (intro read_volatile_cong) simp_all
  have own_case: "\<forall>k. get_prop (read_volatile st' r) k =
                  marker_or st k (if reads_undefined own k then get_prop (volatile st) k
                                  else get_prop own k)"
    if c: "C = OwnVolatile \<or> C = InheritedVolatile" and o: "volatile_ref r' = C own" for C own
  proof -
    from volatile_stage_own [OF c o, of st] obtain own2 where
      s: "?stage r' = (r'\<lparr>volatile_ref := C own2\<rparr>, st)" and
      g: "\<forall>k. get_prop own2 k =
            marker_or st k (if reads_undefined own k then get_prop (volatile st) k
                            else get_prop own k)"
      by blast
    have "read_volatile st' r = own2"
      unfolding rd s using c by (auto simp add: read_volatile_def)
    then show ?thesis using g by simp
  qed
  have markers: "get_prop (read_volatile st' r) ''sdkInstanceId'' \<noteq> JUndefined
     \<and> get_prop (read_volatile st' r) ''sdkName'' \<noteq> JUndefined"
  proof (cases "volatile_ref r'")
    case SdkVolatile
    have "read_volatile st' r =
        set_prop (set_prop (volatile st) ''sdkInstanceId''
                    (marker_or st ''sdkInstanceId'' (get_prop (volatile st) ''sdkInstanceId'')))
          ''sdkName'' (marker_or st ''sdkName'' (get_prop (volatile st) ''sdkName''))"
      unfolding rd volatile_stage_shared [OF SdkVolatile]
      by (simp add: read_volatile_def SdkVolatile)
    then show ?thesis
      by (simp add: get_prop_set_prop marker_or_defined)
  next
    case (OwnVolatile own)
    show ?thesis
      using own_case [of OwnVolatile own] OwnVolatile by (simp add: marker_or_defined)
  next
    case (InheritedVolatile own)
    show ?thesis
      using own_case [of InheritedVolatile own] InheritedVolatile by (simp add: marker_or_defined)
  qed
  have third: "get_prop (read_volatile st' r) k =
                  marker_or st k (if get_prop own k \<noteq> JUndefined then get_prop own k
                                  else get_prop (volatile st) k)"
    if supplied: "(''volatile'' \<notin> set (keys options) \<and> get_prop request0 ''volatile'' = JObj own)
               \<or> (distinct (keys options) \<and> get_prop options ''volatile'' = JObj own)"
      and key: "k \<in> set (keys own) \<or> k \<notin> set object_prototype_keys" for own k
  proof -
    have "resolve_volatile ?prepared
            = Inr \<lparr>props = del_prop (fst ?prepared) ''volatile'', prototype = snd ?prepared,
                   volatile_ref = OwnVolatile own\<rparr>"
      using prepare_request_volatile [OF supplied, of uuid] by (intro resolve_volatile_own) simp_all
    then have "volatile_ref r' = OwnVolatile own" using rv by simp
    then have g: "get_prop (read_volatile st' r) k =
                  marker_or st k (if reads_undefined own k then get_prop (volatile st) k
                                  else get_prop own k)"
      using own_case [of OwnVolatile own] by simp
    have "reads_undefined own k = (get_prop own k = JUndefined)"
      using key get_prop_not_key [of k own] by (auto simp add: reads_undefined_def)
    then show ?thesis using g by simp
  qed
  show ?thesis
    using markers third by (intro conjI allI impI) simp_all
qed

text \<open>
  A caller's own key survives, a default fills a key the caller left out, and a falsy
  \<^verbatim>\<open>sdkName\<close> gives way to the SDK's name, for an SDK whose defaults are
  \<^verbatim>\<open>{ app: "sdk", lang: "en" }\<close>: first with the volatile in the request, then with the
  same volatile in the options.
\<close>

theorem volatile_merge_per_call_wins_witness:
  "(let st = new_kuzzle\<lparr>volatile := [(''app'', JStr ''sdk''), (''lang'', JStr ''en'')]\<rparr>;
        own = [(''app'', JStr ''mine''), (''sdkName'', JStr '''')]
    in (\<exists>r. dispatched 0 ''uuid-a'' 0 (request_with_volatile own) (JObj []) st = Some r
          \<and> map (get_prop (read_volatile
                    (after_query 0 ''uuid-a'' 0 (request_with_volatile own) (JObj []) st) r))
               [''app'', ''lang'', ''sdkName'', ''sdkInstanceId'']
            = [JStr ''mine'', JStr ''en'', JStr ''js@7'', JStr ''protocol-uuid''])
     \<and> (\<exists>r. dispatched 0 ''uuid-a'' 0 (example_request ''r0'') (options_with_volatile own) st
             = Some r
          \<and> map (get_prop (read_volatile
                    (after_query 0 ''uuid-a'' 0 (example_request ''r0'')
                       (options_with_volatile own) st) r))
               [''app'', ''lang'', ''sdkName'', ''sdkInstanceId'']
            = [JStr ''mine'', JStr ''en'', JStr ''js@7'', JStr ''protocol-uuid'']))"
proof -
  define st where "st = new_kuzzle\<lparr>volatile := [(''app'', JStr ''sdk''), (''lang'', JStr ''en'')]\<rparr>"
  define own where "own = [(''app'', JStr ''mine''), (''sdkName'', JStr '''')]"
  have listed: "map (get_prop (read_volatile st' r)) [''app'', ''lang'', ''sdkName'', ''sdkInstanceId'']
           = [JStr ''mine'', JStr ''en'', JStr ''js@7'', JStr ''protocol-uuid'']"
    if k: "\<And>k. k \<in> set (keys own) \<or> k \<notin> set object_prototype_keys \<Longrightarrow>
             get_prop (read_volatile st' r) k =
               marker_or st k (if get_prop own k \<noteq> JUndefined then get_prop own k
                               else get_prop (volatile st) k)" for st' r
    using k [of "''app''"] k [of "''lang''"] k [of "''sdkName''"] k [of "''sdkInstanceId''"]
    by (simp add: marker_or_def own_def st_def new_kuzzle_def get_prop_def keys_def
        object_prototype_keys_def)
  have first: "\<exists>r. dispatched 0 ''uuid-a'' 0 (request_with_volatile own) (JObj []) st = Some r
          \<and> map (get_prop (read_volatile
                    (after_query 0 ''uuid-a'' 0 (request_with_volatile own) (JObj []) st) r))
               [''app'', ''lang'', ''sdkName'', ''sdkInstanceId'']
            = [JStr ''mine'', JStr ''en'', JStr ''js@7'', JStr ''protocol-uuid'']"
  proof -
    define request0 where "request0 = [(''requestId'', JStr ''r0''), (''controller'', JStr ''document''),
           (''action'', JStr ''get''), (''volatile'', JObj own)]"
    have c: "json_copy (request_with_volatile own) = JObj request0"
      "json_copy (default_options (JObj [])) = JObj []"
      by (simp_all add: request0_def own_def request_with_volatile_def default_options_def)
    have supplied: "(''volatile'' \<notin> set (keys []) \<and> get_prop request0 ''volatile'' = JObj own)
        \<or> (distinct (keys []) \<and> get_prop [] ''volatile'' = JObj own)"
      by (simp add: request0_def get_prop_def keys_def)
    have rv: "resolve_volatile (prepare_request ''uuid-a'' [] request0)
              = Inr \<lparr>props = del_prop (fst (prepare_request ''uuid-a'' [] request0)) ''volatile'',
                     prototype = snd (prepare_request ''uuid-a'' [] request0),
                     volatile_ref = OwnVolatile own\<rparr>"
      using prepare_request_volatile [OF supplied, of "''uuid-a''"]
      by (intro resolve_volatile_own) simp_all
    obtain out r st' where
      q: "query 0 ''uuid-a'' 0 (request_with_volatile own) (JObj []) st = Inr (out, r, st')"
      unfolding query_unfold [OF c] rv
      by (cases "dispatch 0 0 (is_queuable st [] (assign_requestId ''uuid-a'' request0))
                 (effective_timeout st [])
                 (set_markers (merge_volatile (keys (volatile st))
                    (\<lparr>props = del_prop (fst (prepare_request ''uuid-a'' [] request0)) ''volatile'',
                      prototype = snd (prepare_request ''uuid-a'' [] request0),
                      volatile_ref = OwnVolatile own\<rparr>, st)))") simp
    from volatile_merge_per_call_wins [OF c q] supplied
    have "k \<in> set (keys own) \<or> k \<notin> set object_prototype_keys \<Longrightarrow>
             get_prop (read_volatile st' r) k =
               marker_or st k (if get_prop own k \<noteq> JUndefined then get_prop own k
                               else get_prop (volatile st) k)" for k
      by blast
    then have "map (get_prop (read_volatile st' r)) [''app'', ''lang'', ''sdkName'', ''sdkInstanceId'']
           = [JStr ''mine'', JStr ''en'', JStr ''js@7'', JStr ''protocol-uuid'']"
      by (rule listed)
    moreover have "dispatched 0 ''uuid-a'' 0 (request_with_volatile own) (JObj []) st = Some r"
      "after_query 0 ''uuid-a'' 0 (request_with_volatile own) (JObj []) st = st'"
      using q by (simp_all add: dispatched_def after_query_def)
    ultimately show ?thesis
      by (intro exI [of _ r]) simp
  qed
  have second: "\<exists>r. dispatched 0 ''uuid-a'' 0 (example_request ''r0'') (options_with_volatile own) st
             = Some r
          \<and> map (get_prop (read_volatile
                    (after_query 0 ''uuid-a'' 0 (example_request ''r0'')
                       (options_with_volatile own) st) r))
               [''app'', ''lang'', ''sdkName'', ''sdkInstanceId'']
            = [JStr ''mine'', JStr ''en'', JStr ''js@7'', JStr ''protocol-uuid'']"
  proof -
    define request0 where "request0 = [(''requestId'', JStr ''r0''), (''controller'', JStr ''document''),
           (''action'', JStr ''get'')]"
    define options where "options = [(''volatile'', JObj own)]"
    have c: "json_copy (example_request ''r0'') = JObj request0"
      "json_copy (default_options (options_with_volatile own)) = JObj options"
      by (simp_all add: request0_def options_def own_def example_request_def
          options_with_volatile_def default_options_def)
    have supplied: "(''volatile'' \<notin> set (keys options) \<and> get_prop request0 ''volatile'' = JObj own)
        \<or> (distinct (keys options) \<and> get_prop options ''volatile'' = JObj own)"
      by (simp add: options_def get_prop_def keys_def)
    have rv: "resolve_volatile (prepare_request ''uuid-a'' options request0)
              = Inr \<lparr>props = del_prop (fst (prepare_request ''uuid-a'' options request0)) ''volatile'',
                     prototype = snd (prepare_request ''uuid-a'' options request0),
                     volatile_ref = OwnVolatile own\<rparr>"
      using prepare_request_volatile [OF supplied, of "''uuid-a''"]
      by (intro resolve_volatile_own) simp_all
    obtain out r st' where
      q: "query 0 ''uuid-a'' 0 (example_request ''r0'') (options_with_volatile own) st
            = Inr (out, r, st')"
      unfolding query_unfold [OF c] rv
      by (cases "dispatch 0 0 (is_queuable st options (assign_requestId ''uuid-a'' request0))
                 (effective_timeout st options)
                 (set_markers (merge_volatile (keys (volatile st))
                    (\<lparr>props = del_prop (fst (prepare_request ''uuid-a'' options request0)) ''volatile'',
                      prototype = snd (prepare_request ''uuid-a'' options request0),
                      volatile_ref = OwnVolatile own\<rparr>, st)))") simp
    from volatile_merge_per_call_wins [OF c q] supplied
    have "k \<in> set (keys own) \<or> k \<notin> set object_prototype_keys \<Longrightarrow>
             get_prop (read_volatile st' r) k =
               marker_or st k (if get_prop own k \<noteq> JUndefined then get_prop own k
                               else get_prop (volatile st) k)" for k
      by blast
    then have "map (get_prop (read_volatile st' r)) [''app'', ''lang'', ''sdkName'', ''sdkInstanceId'']
           = [JStr ''mine'', JStr ''en'', JStr ''js@7'', JStr ''protocol-uuid'']"
      by (rule listed)
    moreover have "dispatched 0 ''uuid-a'' 0 (example_request ''r0'') (options_with_volatile own) st
             = Some r"
      "after_query 0 ''uuid-a'' 0 (example_request ''r0'') (options_with_volatile own) st = st'"
      using q by (simp_all add: dispatched_def after_query_def)
    ultimately show ?thesis
      by (intro exI [of _ r]) simp
  qed
  show ?thesis
    unfolding Let_def st_def [symmetric] own_def [symmetric]
    using first second by (rule conjI)
qed

text \<open>
  C10, as stated, fails: a request without a volatile field whose options bring one, the way
  the comment of lines 776-778 describes, is dispatched with that object of the options
  (line 823 made it the request's own property), not with the SDK's, and
  \<^verbatim>\<open>kuzzle.volatile\<close> is left as it was.
\<close>

theorem options_volatile_is_not_aliased:
  "json_copy (example_request ''r0'')
     = JObj [(''requestId'', JStr ''r0''), (''controller'', JStr ''document''),
             (''action'', JStr ''get'')]
   \<and> dispatched 0 ''uuid-a'' 0 (example_request ''r0'') (options_with_volatile [(''a'', JNum 1)])
         new_kuzzle
       = Some \<lparr>props = [(''requestId'', JStr ''r0''), (''controller'', JStr ''document''),
                         (''action'', JStr ''get'')],
                prototype = ObjectPrototype,
                volatile_ref = OwnVolatile [(''a'', JNum 1),
                                            (''sdkInstanceId'', JStr ''protocol-uuid''),
                                            (''sdkName'', JStr ''js@7'')]\<rparr>
   \<and> volatile (after_query 0 ''uuid-a'' 0 (example_request ''r0'')
                 (options_with_volatile [(''a'', JNum 1)]) new_kuzzle) = []
   \<and> volatile new_kuzzle = []"
  by (simp add: example_request_def options_with_volatile_def new_kuzzle_def query_eval
      timeoutRequest_def)

text \<open>
  C10, amended. When neither the deep-copied request nor the options carry a truthy
  \<^verbatim>\<open>volatile\<close>, the options neither as their own property nor in an object they give under
  the key \<^verbatim>\<open>__proto__\<close>, the request is dispatched with the SDK's own volatile object, by
  reference: what the dispatched request reads as its volatile is \<^verbatim>\<open>kuzzle.volatile\<close>
  itself, and lines 855-857 have written \<^verbatim>\<open>sdkInstanceId\<close> and \<^verbatim>\<open>sdkName\<close> into it. After
  the call both are keys of the SDK-wide defaults, which the loop of lines 850-854 copies
  into every later request.
\<close>

theorem query_without_volatile_mutates_sdk_volatile:
  assumes "json_copy req = JObj request0" and "json_copy (default_options opts) = JObj options"
    and "\<not> truthy (get_prop request0 ''volatile'')"
    and "distinct (keys options)"
    and "\<not> truthy (get_prop options ''volatile'')"
    and "\<forall>P. get_prop options ''__proto__'' = JObj P \<longrightarrow> \<not> truthy (get_prop P ''volatile'')"
  shows "\<exists>out r st'. query now uuid p req opts st = Inr (out, r, st')
     \<and> volatile_ref r = SdkVolatile
     \<and> read_volatile st' r = volatile st'
     \<and> volatile st' =
         set_prop (set_prop (volatile st) ''sdkInstanceId''
                     (marker_or st ''sdkInstanceId'' (get_prop (volatile st) ''sdkInstanceId'')))
           ''sdkName'' (marker_or st ''sdkName'' (get_prop (volatile st) ''sdkName''))
     \<and> get_prop (volatile st') ''sdkInstanceId''
         = marker_or st ''sdkInstanceId'' (get_prop (volatile st) ''sdkInstanceId'')
     \<and> get_prop (volatile st') ''sdkName''
         = marker_or st ''sdkName'' (get_prop (volatile st) ''sdkName'')
     \<and> ''sdkInstanceId'' \<in> set (keys (volatile st'))
     \<and> ''sdkName'' \<in> set (keys (volatile st'))"
proof -
  let ?prepared = "prepare_request uuid options request0"
  let ?r' = "\<lparr>props = del_prop (fst ?prepared) ''volatile'', prototype = snd ?prepared,
              volatile_ref = SdkVolatile\<rparr>"
  let ?V = "set_prop (set_prop (volatile st) ''sdkInstanceId''
                     (marker_or st ''sdkInstanceId'' (get_prop (volatile st) ''sdkInstanceId'')))
           ''sdkName'' (marker_or st ''sdkName'' (get_prop (volatile st) ''sdkName''))"
  have rv: "resolve_volatile ?prepared = Inr ?r'"
    using prepare_request_without_volatile [OF assms(3,4,5,6), of uuid]
    by (rule resolve_volatile_shared)
  have sh: "volatile_ref ?r' = SdkVolatile" by simp
  obtain out r st' where d:
    "dispatch now p (is_queuable st options (assign_requestId uuid request0))
          (effective_timeout st options) (?r', st\<lparr>volatile := ?V\<rparr>) = (out, r, st')"
    by (cases "dispatch now p (is_queuable st options (assign_requestId uuid request0))
          (effective_timeout st options) (?r', st\<lparr>volatile := ?V\<rparr>)")
  have q: "query now uuid p req opts st = Inr (out, r, st')"
    unfolding query_unfold [OF assms(1,2)] rv
    using d volatile_stage_shared [OF sh, of st] by simp
  have v: "volatile st' = ?V" "volatile_ref r = SdkVolatile"
    using dispatch_volatile [OF d] by simp_all
  have "get_prop ?V ''sdkInstanceId''
         = marker_or st ''sdkInstanceId'' (get_prop (volatile st) ''sdkInstanceId'')"
    "get_prop ?V ''sdkName'' = marker_or st ''sdkName'' (get_prop (volatile st) ''sdkName'')"
    "''sdkInstanceId'' \<in> set (keys ?V)" "''sdkName'' \<in> set (keys ?V)"
    by (simp_all add: get_prop_set_prop keys_set_prop)
  then show ?thesis
    using q v by (simp add: read_volatile_def)
qed

text \<open>
  On the fresh SDK, whose defaults are empty, a request without volatile and without options
  leaves both markers in \<^verbatim>\<open>kuzzle.volatile\<close>.
\<close>

theorem query_without_volatile_mutates_sdk_volatile_witness:
  "volatile new_kuzzle = []
   \<and> volatile (after_query 0 ''uuid-a'' 0 (example_request ''r0'') (JObj []) new_kuzzle)
       = [(''sdkInstanceId'', JStr ''protocol-uuid''), (''sdkName'', JStr ''js@7'')]
   \<and> map_option volatile_ref (dispatched 0 ''uuid-a'' 0 (example_request ''r0'') (JObj []) new_kuzzle)
       = Some SdkVolatile"
proof -
  define request0 where "request0 = [(''requestId'', JStr ''r0''), (''controller'', JStr ''document''),
           (''action'', JStr ''get'')]"
  have c: "json_copy (example_request ''r0'') = JObj request0" "json_copy (default_options (JObj [])) = JObj []"
    by (simp_all add: request0_def example_request_def default_options_def)
  have h: "\<not> truthy (get_prop request0 ''volatile'')" "distinct (keys [])"
    "\<not> truthy (get_prop [] ''volatile'')"
    "\<forall>P. get_prop [] ''__proto__'' = JObj P \<longrightarrow> \<not> truthy (get_prop P ''volatile'')"
    by (simp_all add: request0_def get_prop_def keys_def)
  from query_without_volatile_mutates_sdk_volatile [OF c h, of 0 "''uuid-a''" 0 new_kuzzle]
  obtain out r st' where
    q: "query 0 ''uuid-a'' 0 (example_request ''r0'') (JObj []) new_kuzzle = Inr (out, r, st')"
    and "volatile_ref r = SdkVolatile"
    and "volatile st' =
         set_prop (set_prop (volatile new_kuzzle) ''sdkInstanceId''
                     (marker_or new_kuzzle ''sdkInstanceId''
                        (get_prop (volatile new_kuzzle) ''sdkInstanceId'')))
           ''sdkName'' (marker_or new_kuzzle ''sdkName'' (get_prop (volatile new_kuzzle) ''sdkName''))"
    by blast
  then show ?thesis
    by (simp add: after_query_def dispatched_def marker_or_def new_kuzzle_def get_prop_def)
qed

text \<open>
  Options that carry the key \<^verbatim>\<open>__proto__\<close> (an own property after \<^verbatim>\<open>JSON.parse\<close>) do not
  give the request a property of that name: line 823 makes their value the prototype of
  the request, which then reads the \<^verbatim>\<open>volatile\<close> of that object at line 837, and lines
  850-857 write there. \<^verbatim>\<open>kuzzle.volatile\<close> is left as it was.
\<close>

lemma options_proto_becomes_prototype:
  "dispatched 0 ''uuid-a'' 0 (example_request ''r0'')
       (JObj [(''__proto__'', JObj [(''volatile'', JObj [(''a'', JNum 1)])])]) new_kuzzle
     = Some \<lparr>props = [(''requestId'', JStr ''r0''), (''controller'', JStr ''document''),
                       (''action'', JStr ''get'')],
              prototype = ObjectValue [],
              volatile_ref = InheritedVolatile [(''a'', JNum 1),
                                                (''sdkInstanceId'', JStr ''protocol-uuid''),
                                                (''sdkName'', JStr ''js@7'')]\<rparr>
   \<and> volatile (after_query 0 ''uuid-a'' 0 (example_request ''r0'')
                 (JObj [(''__proto__'', JObj [(''volatile'', JObj [(''a'', JNum 1)])])])
                 new_kuzzle) = []"
  by (simp add: example_request_def new_kuzzle_def query_eval timeoutRequest_def)

section \<open>Observer: notifications\<close>

text \<open>
  C9. A \<^verbatim>\<open>write\<close> notification about a document the Observer does not track is not
  ignored: \<^verbatim>\<open>rtDocument\<close> is undefined and reading \<^verbatim>\<open>rtDocument._source\<close> throws, before
  anything is changed.
\<close>

theorem write_notification_untracked_throws:
  assumes "n_event n = ''write''"
    and "documents st (documentUrn (n_index n) (n_collection n) (result_id n)) = None"
  shows "notificationHandler n answer st = (Some TypeError, st)"
  using assms by (simp add: notificationHandler_def Let_def)

text \<open>The fresh Observer tracks nothing, so the notification throws there.\<close>

theorem write_notification_untracked_throws_witness:
  "notificationHandler (example_notification ''write'') None new_observer
     = (Some TypeError, new_observer)"
  using write_notification_untracked_throws
          [of "example_notification ''write''" new_observer None]
  by (simp add: example_notification_def new_observer_def)

lemma resubscribe_no_bucket:
  "documentsByCollection st (collectionUrn index collection) = None \<Longrightarrow>
   resubscribe index collection answer st = st"
  by (simp add: resubscribe_def)

lemma observing_one_calls: "calls observing_one = [Subscribe ''nyc'' ''taxi'' [''doc-1'']]"
  by (simp add: observing_one_def observe_def addDocument_def Let_def resubscribe_def
      new_observer_def example_document_def set_add_def collectionUrn_def roomId_truthy_def)

lemma observing_one_bucket:
  "documentsByCollection observing_one (collectionUrn ''nyc'' ''taxi'')
     = Some \<lparr>ids = [''doc-1''], roomId = Some ''room-1''\<rparr>"
  by (simp add: observing_one_def observe_def addDocument_def Let_def resubscribe_def
      new_observer_def example_document_def set_add_def collectionUrn_def roomId_truthy_def)

lemma observing_one_documents:
  "documents observing_one (documentUrn ''nyc'' ''taxi'' ''doc-1'') = Some 0"
  by (simp add: observing_one_def observe_def addDocument_def Let_def resubscribe_def
      new_observer_def example_document_def set_add_def collectionUrn_def roomId_truthy_def)

text \<open>
  What a \<^verbatim>\<open>delete\<close> notification does to a tracked document: the object the application
  holds is marked deleted, its URN is no longer tracked, and its id leaves the bucket.
\<close>

lemma delete_notification_untracks:
  assumes "n_event n = ''delete''"
    and "documents st (documentUrn (n_index n) (n_collection n) (result_id n)) = Some r"
    and "rt_id (heap st r) = result_id n"
    and "documentsByCollection st (collectionUrn (n_index n) (n_collection n)) = Some b"
  shows "fst (notificationHandler n answer st) = None"
    and "deleted (heap (snd (notificationHandler n answer st)) r)"
    and "documents (snd (notificationHandler n answer st))
           (documentUrn (n_index n) (n_collection n) (result_id n)) = None"
    and "case documentsByCollection (snd (notificationHandler n answer st))
                (collectionUrn (n_index n) (n_collection n)) of
           None \<Rightarrow> True
         | Some b' \<Rightarrow> result_id n \<notin> set (ids b')"
  using assms
  by (auto simp add: notificationHandler_def Let_def resubscribe_def set_delete_def
      split: option.splits)

text \<open>
  While other documents of the bucket remain, the bucket is subscribed anew for the
  remaining ids and, once the new room is confirmed, the old room is left.
\<close>

lemma delete_notification_resubscribes:
  assumes "n_event n = ''delete''"
    and "documents st (documentUrn (n_index n) (n_collection n) (result_id n)) = Some r"
    and "documentsByCollection st (collectionUrn (n_index n) (n_collection n)) = Some b"
    and "set_delete (result_id n) (ids b) \<noteq> []"
    and "roomId_truthy (roomId b)"
  shows "calls (snd (notificationHandler n (Some newRoomId) st))
           = calls st @ [Subscribe (n_index n) (n_collection n) (set_delete (result_id n) (ids b)),
                         Unsubscribe (roomId b)]"
  using assms
  by (simp add: notificationHandler_def Let_def resubscribe_def)

text \<open>The sibling \<^verbatim>\<open>disposeCollection\<close> does leave the room of the bucket it removes.\<close>

lemma disposeCollection_unsubscribes:
  "documentsByCollection st (collectionUrn index collection) = Some b \<Longrightarrow>
   calls (snd (disposeCollection index collection st)) = calls st @ [Unsubscribe (roomId b)]
   \<and> documentsByCollection (snd (disposeCollection index collection st))
        (collectionUrn index collection) = None"
  by (simp add: disposeCollection_def)

text \<open>
  C2. A \<^verbatim>\<open>delete\<close> notification about the last tracked document of a bucket marks the
  document deleted and removes the bucket, and then \<^verbatim>\<open>resubscribe\<close> finds no bucket and
  returns at once: no call reaches the Realtime controller, so no unsubscribe is issued for
  the bucket's room, whatever its room id.
\<close>

theorem delete_last_tracked_leaves_room_subscribed:
  assumes "n_event n = ''delete''"
    and "documents st (documentUrn (n_index n) (n_collection n) (result_id n)) = Some r"
    and "documentsByCollection st (collectionUrn (n_index n) (n_collection n)) = Some b"
    and "set_delete (result_id n) (ids b) = []"
  shows "fst (notificationHandler n answer st) = None
    \<and> calls (snd (notificationHandler n answer st)) = calls st
    \<and> documentsByCollection (snd (notificationHandler n answer st))
         (collectionUrn (n_index n) (n_collection n)) = None
    \<and> deleted (heap (snd (notificationHandler n answer st)) r)"
  using assms by (simp add: notificationHandler_def Let_def resubscribe_def)

text \<open>
  After observing one document in room \<^verbatim>\<open>room-1\<close>, its deletion leaves the calls as they
  were: the one subscribe, and no unsubscribe of \<^verbatim>\<open>room-1\<close>.
\<close>

theorem delete_last_tracked_leaves_room_subscribed_witness:
  "fst (notificationHandler (example_notification ''delete'') None observing_one) = None
   \<and> calls (snd (notificationHandler (example_notification ''delete'') None observing_one))
       = [Subscribe ''nyc'' ''taxi'' [''doc-1'']]
   \<and> documentsByCollection (snd (notificationHandler (example_notification ''delete'') None observing_one))
        (collectionUrn ''nyc'' ''taxi'') = None
   \<and> deleted (heap (snd (notificationHandler (example_notification ''delete'') None observing_one)) 0)"
  using delete_last_tracked_leaves_room_subscribed
          [of "example_notification ''delete''" observing_one 0
              "\<lparr>ids = [''doc-1''], roomId = Some ''room-1''\<rparr>" None]
  by (simp add: example_notification_def observing_one_calls observing_one_bucket
      observing_one_documents set_delete_def)

end
